theory Spec2Isabelle
  imports
    Complex_Main
    "HOL-Library.Char_ord"
    "HOL-Library.List_Lexorder"
    "HOL-Library.Multiset"
begin

section \<open>Data model\<close>

text \<open>
  The entities of \<^verbatim>\<open>libs/persistance\<close>. Amounts are the exact decimals that
  \<^verbatim>\<open>decimal.js\<close> computes with; they are modelled as rationals. The conversion of a result
  to a JavaScript \<^verbatim>\<open>number\<close> on the way to the column is the subject of the section on
  number conversion. The
  \<^verbatim>\<open>bigint\<close> columns (\<^verbatim>\<open>nonce\<close>, \<^verbatim>\<open>height\<close>), which the entities hold as decimal
  strings and the services read with \<^verbatim>\<open>BigInt\<close>, are integers.
\<close>

type_synonym decimal = rat

datatype TransactionStatusTypeORM = PENDING | PROCESSING | CONFIRMED | FAILED | CANCELLED

datatype TransactionTypeTypeORM = TRANSFER | DEPOSIT | WITHDRAWAL | FEE | ADJUSTMENT | GENESIS

record Wallet =
  wallet_id :: string
  wallet_userId :: string

record Account =
  acc_id :: string
  systemAddress :: string
  balance :: decimal
  locked :: decimal
  nonce :: int
  acc_currency :: string
  walletId :: string

record Transaction =
  tx_id :: string
  systemHash :: string
  fromAccountId :: string
  toAccountId :: string
  amount :: decimal
  fee :: decimal
  tx_currency :: string
  status :: TransactionStatusTypeORM
  accountNonce :: int
  description :: "string option"
  tx_type :: TransactionTypeTypeORM
  blockId :: "string option"
  blockHeight :: "int option"

record Block =
  block_id :: string
  height :: int
  blockHash :: string
  previousBlockHash :: "string option"
  timestamp :: string
  merkleRoot :: "string option"

text \<open>
  The relational store (one list per table, in insertion order) together with the two Redis
  lists, the mempool and the dead-letter queue. \<^verbatim>\<open>lpush\<close> adds at the head of a list.
\<close>

record store =
  wallets :: "Wallet list"
  accounts :: "Account list"
  transactions :: "Transaction list"
  blocks :: "Block list"
  mempool :: "string list"
  deadLetter :: "string list"

text \<open>The exceptions the services throw; \<open>QueryFailedError\<close> is the store rejecting a row.\<close>

datatype error =
    BadRequestException string
  | NotFoundException string
  | ForbiddenException string
  | InternalServerErrorException string
  | QueryFailedError string

section \<open>BlockService\<close>

text \<open>
  \<^verbatim>\<open>createHash('sha256').update(data).digest('hex')\<close> comes from the runtime's crypto
  library; the services are modelled over an arbitrary digest function \<open>H\<close>.
\<close>

type_synonym hashFn = "string \<Rightarrow> string"

text \<open>
  \<^verbatim>\<open>calculateBlockHash\<close>. \<^verbatim>\<open>Array.prototype.sort\<close> sorts the caller's array in place, so
  the function is modelled as returning the digest together with the array as it leaves it.
  \<^verbatim>\<open>previousBlockHash || '...'\<close> takes the default for \<^verbatim>\<open>null\<close> and for the empty string.
\<close>

definition calculateBlockHash ::
  "hashFn \<Rightarrow> string \<Rightarrow> string \<Rightarrow> string option \<Rightarrow> string list \<Rightarrow> string \<times> string list" where
  "calculateBlockHash H heightStr timestampISO prevHash transactionSystemHashes =
     (let sorted_hashes = sort transactionSystemHashes;
          data = heightStr @ timestampISO @
                 (case prevHash of
                    None \<Rightarrow> ''GENESIS_BLOCK_PREV_HASH_0000000000000''
                  | Some p \<Rightarrow> if p = [] then ''GENESIS_BLOCK_PREV_HASH_0000000000000'' else p) @
                 concat sorted_hashes
      in (H data, sorted_hashes))"

text \<open>
  The inner \<^verbatim>\<open>for (let i = 0; i < currentLevel.length; i += 2)\<close> loop of
  \<^verbatim>\<open>calculateMerkleRoot\<close>, with its index and the \<^verbatim>\<open>nextLevel\<close> array it pushes to.
\<close>

function forPairs :: "hashFn \<Rightarrow> string list \<Rightarrow> nat \<Rightarrow> string list \<Rightarrow> string list" where
  "forPairs H currentLevel i nextLevel =
     (if i < length currentLevel then
        forPairs H currentLevel (i + 2)
          (nextLevel @
            [H ((currentLevel ! i) @
                (if i + 1 < length currentLevel then currentLevel ! (i + 1) else currentLevel ! i))])
      else nextLevel)"
  by pat_completeness auto
termination
  by (relation "measure (\<lambda>(H, currentLevel, i, nextLevel). length currentLevel - i)") auto

declare forPairs.simps [simp del]

text \<open>The outer \<^verbatim>\<open>while (currentLevel.length > 1)\<close> loop; it returns the last level.\<close>

function whileLevels :: "hashFn \<Rightarrow> string list \<Rightarrow> string list" where
  "whileLevels H currentLevel =
     (if 1 < length currentLevel then whileLevels H (forPairs H currentLevel 0 [])
      else currentLevel)"
  by pat_completeness auto
termination
proof (relation "measure (\<lambda>(H, currentLevel). length currentLevel)")
  show "wf (measure (\<lambda>(H, currentLevel). length currentLevel))" by simp
next
  fix H :: hashFn and currentLevel :: "string list"
  assume long: "1 < length currentLevel"
  have len: "length (forPairs H cur i nxt) = length nxt + (length cur - i + 1) div 2"
    for cur i nxt
  proof (induction H cur i nxt rule: forPairs.induct)
    case (1 H cur i nxt)
    show ?case
    proof (cases "i < length cur")
      case True
      then have "length (forPairs H cur i nxt) =
                 length (nxt @ [H (cur ! i @ (if i + 1 < length cur then cur ! (i + 1) else cur ! i))])
                 + (length cur - (i + 2) + 1) div 2"
        using "1.IH" by (subst forPairs.simps) simp
      also have "\<dots> = length nxt + (length cur - i + 1) div 2"
        using True by simp arith
      finally show ?thesis .
    next
      case False
      then show ?thesis by (subst forPairs.simps) simp
    qed
  qed
  show "((H, forPairs H currentLevel 0 []), (H, currentLevel))
        \<in> measure (\<lambda>(H, currentLevel). length currentLevel)"
    using long by (simp add: len)
qed

declare whileLevels.simps [simp del]

definition calculateMerkleRoot :: "hashFn \<Rightarrow> string list \<Rightarrow> string" where
  "calculateMerkleRoot H transactionSystemHashes =
     (if length transactionSystemHashes = 0 then H []
      else if length transactionSystemHashes = 1 then H (transactionSystemHashes ! 0)
      else whileLevels H (sort transactionSystemHashes) ! 0)"

text \<open>
  \<^verbatim>\<open>getLatestBlock\<close>: \<^verbatim>\<open>find({ order: { height: 'DESC' }, take: 1 })\<close>, the row of greatest
  height, or \<^verbatim>\<open>null\<close> on an empty table.
\<close>

fun getLatestBlock :: "Block list \<Rightarrow> Block option" where
  "getLatestBlock [] = None"
| "getLatestBlock (b # bs) =
     (case getLatestBlock bs of
        None \<Rightarrow> Some b
      | Some m \<Rightarrow> if height m \<le> height b then Some b else Some m)"

text \<open>\<^verbatim>\<open>getBlockByHeight\<close>: \<^verbatim>\<open>findOne({ where: { height } })\<close>.\<close>

definition getBlockByHeight :: "Block list \<Rightarrow> int \<Rightarrow> Block option" where
  "getBlockByHeight bs h = find (\<lambda>b. height b = h) bs"

text \<open>\<^verbatim>\<open>BigInt.prototype.toString\<close>: the decimal digits, with a sign for negatives.\<close>

definition digitChar :: "nat \<Rightarrow> char" where
  "digitChar d = char_of (48 + d)"

function natToString :: "nat \<Rightarrow> string" where
  "natToString n = (if n < 10 then [digitChar n] else natToString (n div 10) @ [digitChar (n mod 10)])"
  by pat_completeness auto
termination
  by (relation "measure id") auto

declare natToString.simps [simp del]

definition bigintToString :: "int \<Rightarrow> string" where
  "bigintToString i = (if i < 0 then CHR ''-'' # natToString (nat (- i)) else natToString (nat i))"

text \<open>
  The insert that \<^verbatim>\<open>manager.save(Block, newBlockEntity)\<close> performs. The table has a
  generated primary key and unique indexes on \<^verbatim>\<open>height\<close> and \<^verbatim>\<open>block_hash\<close>; a row that
  violates one of them is rejected.
\<close>

definition insertBlock :: "Block \<Rightarrow> store \<Rightarrow> error + store" where
  "insertBlock b s =
     (if block_id b \<in> set (map block_id (blocks s)) then Inl (QueryFailedError ''blocks.id'')
      else if height b \<in> set (map height (blocks s)) then Inl (QueryFailedError ''blocks.height'')
      else if blockHash b \<in> set (map blockHash (blocks s)) then Inl (QueryFailedError ''blocks.block_hash'')
      else Inr (s\<lparr>blocks := blocks s @ [b]\<rparr>))"

text \<open>
  \<^verbatim>\<open>createBlockWithTypeORM\<close>. The generated id \<open>newId\<close> and the clock reading \<open>now\<close>
  (\<^verbatim>\<open>new Date()\<close>, as \<^verbatim>\<open>toISOString\<close> prints it) come from the environment. The processed
  transactions are \<^verbatim>\<open>{id, systemHash}\<close> pairs. \<^verbatim>\<open>calculateMerkleRoot\<close> receives the array
  that \<^verbatim>\<open>calculateBlockHash\<close> has sorted.
\<close>

definition createBlockWithTypeORM ::
  "hashFn \<Rightarrow> string \<Rightarrow> string \<Rightarrow> (string \<times> string) list \<Rightarrow> store \<Rightarrow> error + (Block \<times> store)" where
  "createBlockWithTypeORM H newId now processedTransactions s =
     (if length processedTransactions = 0
      then Inl (InternalServerErrorException ''Cannot create an empty block.'')
      else
        let latestBlock = getLatestBlock (blocks s);
            prevHash = (case latestBlock of None \<Rightarrow> None | Some l \<Rightarrow> Some (blockHash l));
            newHeight = (case latestBlock of None \<Rightarrow> 0 | Some l \<Rightarrow> height l + 1);
            newHeightStr = bigintToString newHeight;
            transactionSystemHashes = map snd processedTransactions;
            (bHash, hashesAfterSort) =
               calculateBlockHash H newHeightStr now prevHash transactionSystemHashes;
            mRoot = calculateMerkleRoot H hashesAfterSort;
            newBlockEntity = \<lparr>block_id = newId, height = newHeight, blockHash = bHash,
                              previousBlockHash = prevHash, timestamp = now,
                              merkleRoot = Some mRoot\<rparr>
        in (case insertBlock newBlockEntity s of
              Inl e \<Rightarrow> Inl e
            | Inr s' \<Rightarrow> Inr (newBlockEntity, s')))"

text \<open>
  The Merkle construction as the specification words it: the hashes sorted ascending, each
  level replaced by the pairwise digests of the concatenated strings, the last element
  doubled at a level of odd size, until one node is left; the digest of the empty string for
  an empty input.
\<close>

fun spec_pairwise :: "hashFn \<Rightarrow> string list \<Rightarrow> string list" where
  "spec_pairwise H [] = []"
| "spec_pairwise H [x] = [H (x @ x)]"
| "spec_pairwise H (x # y # rest) = H (x @ y) # spec_pairwise H rest"

function spec_reduce :: "hashFn \<Rightarrow> string list \<Rightarrow> string list" where
  "spec_reduce H level = (if length level \<le> 1 then level else spec_reduce H (spec_pairwise H level))"
  by pat_completeness auto
termination
proof (relation "measure (\<lambda>(H, level). length level)")
  show "wf (measure (\<lambda>(H, level). length level))" by simp
next
  fix H :: hashFn and level :: "string list"
  assume "\<not> length level \<le> 1"
  moreover have "length (spec_pairwise H xs) = (length xs + 1) div 2" for xs
    by (induction H xs rule: spec_pairwise.induct) simp_all
  ultimately show "((H, spec_pairwise H level), (H, level)) \<in> measure (\<lambda>(H, level). length level)"
    by simp
qed

declare spec_reduce.simps [simp del]

definition spec_merkleRoot :: "hashFn \<Rightarrow> string list \<Rightarrow> string" where
  "spec_merkleRoot H hs = (case spec_reduce H (sort hs) of [] \<Rightarrow> H [] | node # _ \<Rightarrow> node)"

text \<open>A stand-in digest for evaluating the definitions on concrete inputs: it is injective.\<close>

definition tagDigest :: hashFn where
  "tagDigest data = CHR ''#'' # data"

section \<open>Store access\<close>

text \<open>\<^verbatim>\<open>findOne\<close> returns the first row that matches, or \<^verbatim>\<open>null\<close>.\<close>

definition findAccountById :: "Account list \<Rightarrow> string \<Rightarrow> Account option" where
  "findAccountById rows i = find (\<lambda>a. acc_id a = i) rows"

definition findAccountByAddress :: "Account list \<Rightarrow> string \<Rightarrow> Account option" where
  "findAccountByAddress rows addr = find (\<lambda>a. systemAddress a = addr) rows"

text \<open>
  The sender lookup of \<^verbatim>\<open>submitTransfer\<close>:
  \<^verbatim>\<open>where: { systemAddress: fromSystemAddress, wallet: { userId } }\<close>, a join of the account
  with its wallet.
\<close>

definition ownedBy :: "Wallet list \<Rightarrow> string \<Rightarrow> Account \<Rightarrow> bool" where
  "ownedBy ws userId a =
     (case find (\<lambda>w. wallet_id w = walletId a) ws of
        None \<Rightarrow> False
      | Some w \<Rightarrow> wallet_userId w = userId)"

definition findOwnedAccount :: "store \<Rightarrow> string \<Rightarrow> string \<Rightarrow> Account option" where
  "findOwnedAccount s addr userId =
     find (\<lambda>a. systemAddress a = addr \<and> ownedBy (wallets s) userId a) (accounts s)"

definition findTransaction :: "Transaction list \<Rightarrow> string \<Rightarrow> Transaction option" where
  "findTransaction rows i = find (\<lambda>t. tx_id t = i) rows"

text \<open>
  \<^verbatim>\<open>manager.save\<close> of an entity that was loaded from the store writes the entity's fields
  over the row with its primary key; \<^verbatim>\<open>manager.update(Account, id, { locked })\<close> writes one
  column.
\<close>

definition saveAccount :: "Account \<Rightarrow> store \<Rightarrow> store" where
  "saveAccount a s = s\<lparr>accounts := map (\<lambda>r. if acc_id r = acc_id a then a else r) (accounts s)\<rparr>"

definition updateAccountLocked :: "string \<Rightarrow> decimal \<Rightarrow> store \<Rightarrow> store" where
  "updateAccountLocked i v s =
     s\<lparr>accounts := map (\<lambda>r. if acc_id r = i then r\<lparr>locked := v\<rparr> else r) (accounts s)\<rparr>"

definition saveTransaction :: "Transaction \<Rightarrow> store \<Rightarrow> store" where
  "saveTransaction t s =
     s\<lparr>transactions := map (\<lambda>r. if tx_id r = tx_id t then t else r) (transactions s)\<rparr>"

text \<open>
  The insert of a new transaction row. The primary key is generated and
  \<^verbatim>\<open>system_hash\<close> carries a unique index; a duplicate of either is rejected.
\<close>

definition insertTransaction :: "Transaction \<Rightarrow> store \<Rightarrow> error + store" where
  "insertTransaction t s =
     (if tx_id t \<in> set (map tx_id (transactions s)) then Inl (QueryFailedError ''transactions.id'')
      else if systemHash t \<in> set (map systemHash (transactions s))
      then Inl (QueryFailedError ''transactions.system_hash'')
      else Inr (s\<lparr>transactions := transactions s @ [t]\<rparr>))"

section \<open>TransactionQueueService\<close>

definition addToMempool :: "string \<Rightarrow> store \<Rightarrow> store" where
  "addToMempool transactionId s = s\<lparr>mempool := transactionId # mempool s\<rparr>"

section \<open>WalletService\<close>

text \<open>\<^verbatim>\<open>String.prototype.toUpperCase\<close> on the ASCII letters of a currency code.\<close>

definition upperChar :: "char \<Rightarrow> char" where
  "upperChar c = (if CHR ''a'' \<le> c \<and> c \<le> CHR ''z'' then char_of (of_char c - (32::nat)) else c)"

definition toUpperCase :: "string \<Rightarrow> string" where
  "toUpperCase str = map upperChar str"

text \<open>
  \<^verbatim>\<open>submitTransfer\<close>. The amount is the value of \<^verbatim>\<open>new Decimal(amountStr)\<close>. The id that
  the store generates for the new row (\<open>newId\<close>) and the hexadecimal form of
  \<^verbatim>\<open>randomBytes(16)\<close> (\<open>rnd\<close>) come from the environment. The result pairs the outcome with
  the store: an exception inside the \<^verbatim>\<open>try\<close> rolls the store transaction back, so every
  failure returns the store it started from. A rejected insert is rethrown as
  \<^verbatim>\<open>InternalServerErrorException\<close>. On success the method returns
  \<^verbatim>\<open>{id, systemHash, status}\<close> after pushing the id to the mempool.
\<close>

definition submitTransfer ::
  "string \<Rightarrow> string \<Rightarrow> string \<Rightarrow> string \<Rightarrow> string \<Rightarrow> decimal \<Rightarrow> string \<Rightarrow> string option \<Rightarrow> store
   \<Rightarrow> (error + (string \<times> string \<times> TransactionStatusTypeORM)) \<times> store" where
  "submitTransfer newId rnd userId fromSystemAddress toSystemAddress amt currency descr s =
     (if amt \<le> 0 then (Inl (BadRequestException ''Transfer amount must be positive.''), s)
      else if fromSystemAddress = toSystemAddress
      then (Inl (BadRequestException ''Cannot transfer to the same account.''), s)
      else
        let normalizedCurrency = toUpperCase currency in
        case findOwnedAccount s fromSystemAddress userId of
          None \<Rightarrow> (Inl (ForbiddenException ''Sender account not found or access denied.''), s)
        | Some sender \<Rightarrow>
            if acc_currency sender \<noteq> normalizedCurrency
            then (Inl (BadRequestException
                         (''Sender account currency is '' @ acc_currency sender @
                          '', but transfer is for '' @ normalizedCurrency @ ''.'')), s)
            else
              let senderBalance = balance sender;
                  senderLocked = locked sender;
                  senderAvailableBalance = senderBalance - senderLocked
              in
              if senderAvailableBalance < amt
              then (Inl (BadRequestException ''Insufficient available funds.''), s)
              else
                case findAccountByAddress (accounts s) toSystemAddress of
                  None \<Rightarrow>
                    (Inl (NotFoundException
                            (''Recipient account '' @ toSystemAddress @ '' not found.'')), s)
                | Some recipient \<Rightarrow>
                    if acc_currency recipient \<noteq> normalizedCurrency
                    then (Inl (BadRequestException
                                 (''Recipient account currency is '' @ acc_currency recipient @
                                  '', but transfer is for '' @ normalizedCurrency @ ''.'')), s)
                    else
                      let currentNonceForTx = nonce sender;
                          sender' = sender\<lparr>locked := senderLocked + amt, nonce := nonce sender + 1\<rparr>;
                          s1 = saveAccount sender' s;
                          transactionEntity =
                            \<lparr>tx_id = newId,
                             systemHash = ''txn_'' @ rnd,
                             fromAccountId = acc_id sender,
                             toAccountId = acc_id recipient,
                             amount = amt,
                             fee = 0,
                             tx_currency = normalizedCurrency,
                             status = PENDING,
                             accountNonce = currentNonceForTx,
                             description =
                               Some (case descr of
                                       None \<Rightarrow> ''Transfer to '' @ toSystemAddress
                                     | Some d \<Rightarrow> if d = [] then ''Transfer to '' @ toSystemAddress
                                                 else d),
                             tx_type = TRANSFER,
                             blockId = None,
                             blockHeight = None\<rparr>
                      in
                      case insertTransaction transactionEntity s1 of
                        Inl e \<Rightarrow>
                          (Inl (InternalServerErrorException ''Transfer submission failed.''), s)
                      | Inr s2 \<Rightarrow>
                          (Inr (tx_id transactionEntity, systemHash transactionEntity,
                                status transactionEntity),
                           addToMempool (tx_id transactionEntity) s2))"

section \<open>TransactionProcessorService\<close>

text \<open>
  \<^verbatim>\<open>failTransaction\<close> sets the status and appends the reason to the description, cut to 255
  characters, then saves the row.
\<close>

definition failureDescription :: "string option \<Rightarrow> string \<Rightarrow> string" where
  "failureDescription descr reason =
     take 255 ((case descr of None \<Rightarrow> [] | Some d \<Rightarrow> d) @ '' | ProcessorFailure: '' @ reason)"

definition failTransaction :: "Transaction \<Rightarrow> string \<Rightarrow> store \<Rightarrow> store" where
  "failTransaction t reason s =
     saveTransaction
       (t\<lparr>status := FAILED, description := Some (failureDescription (description t) reason)\<rparr>) s"

text \<open>\<^verbatim>\<open>markTransactionFailed\<close> does the same on a row it looks up by id.\<close>

definition markTransactionFailed :: "string \<Rightarrow> string \<Rightarrow> store \<Rightarrow> store" where
  "markTransactionFailed txId reason s =
     (case findTransaction (transactions s) txId of
        None \<Rightarrow> s
      | Some t \<Rightarrow>
          saveTransaction
            (t\<lparr>status := FAILED, description := Some (failureDescription (description t) reason)\<rparr>) s)"


text \<open>
  \<^verbatim>\<open>revertLockOnAccount\<close> reads the account row again and writes
  \<^verbatim>\<open>locked - amountToRevert\<close>, or 0 when that is negative.
\<close>

definition revertLockOnAccount :: "string \<Rightarrow> decimal \<Rightarrow> store \<Rightarrow> store" where
  "revertLockOnAccount accountId amountToRevert s =
     (case findAccountById (accounts s) accountId of
        None \<Rightarrow> s
      | Some currentAccountState \<Rightarrow>
          let currentLocked = locked currentAccountState;
              newLocked = currentLocked - amountToRevert
          in updateAccountLocked accountId (if newLocked < 0 then 0 else newLocked) s)"

text \<open>
  How a call of \<^verbatim>\<open>executeSingleTransaction\<close> leaves the store transaction it opened. The
  paths that fail the transaction return after their writes without calling
  \<^verbatim>\<open>commitTransaction\<close> or \<^verbatim>\<open>rollbackTransaction\<close>; \<^verbatim>\<open>release\<close> then hands the
  connection back.
\<close>

datatype txEnd = Committed | LeftOpen

text \<open>
  \<^verbatim>\<open>executeSingleTransaction\<close>, the body of its \<^verbatim>\<open>try\<close> block. The result is the value
  returned (\<^verbatim>\<open>null\<close> is \<open>None\<close>), how the store transaction was left, and the store with the
  writes the call made. The transaction is loaded with its two account relations, which are
  snapshots of the rows: \<open>sender\<close> and \<open>recipient\<close> are read once, before any write.
\<close>

definition executeSingleTransaction :: "string \<Rightarrow> store \<Rightarrow> Transaction option \<times> txEnd \<times> store" where
  "executeSingleTransaction txId s =
     (case findTransaction (transactions s) txId of
        None \<Rightarrow> (None, Committed, s)
      | Some t0 \<Rightarrow>
          if status t0 \<noteq> PENDING
          then ((if status t0 = PROCESSING then Some t0 else None), Committed, s)
          else
            let transaction = t0\<lparr>status := PROCESSING\<rparr>;
                s1 = saveTransaction transaction s;
                amt = amount transaction
            in
            case (findAccountById (accounts s) (fromAccountId t0),
                  findAccountById (accounts s) (toAccountId t0)) of
              (Some sender, Some recipient) \<Rightarrow>
                let senderBalance = balance sender;
                    senderLocked = locked sender
                in
                if senderLocked < amt
                then (None, LeftOpen,
                      failTransaction transaction ''Inconsistent locked amount for sender.'' s1)
                else if senderBalance < amt
                then (None, LeftOpen,
                      revertLockOnAccount (acc_id sender) amt
                        (failTransaction transaction ''Insufficient total balance.'' s1))
                else
                  let s2 = saveAccount
                             (sender\<lparr>balance := senderBalance - amt, locked := senderLocked - amt\<rparr>) s1;
                      s3 = saveAccount (recipient\<lparr>balance := balance recipient + amt\<rparr>) s2
                  in (Some transaction, Committed, s3)
            | _ \<Rightarrow>
                (None, LeftOpen,
                 failTransaction transaction ''Sender or recipient account data missing.'' s1))"


section \<open>Number conversion\<close>

text \<open>
  The services compute with \<^verbatim>\<open>decimal.js\<close> and then assign \<^verbatim>\<open>result.toNumber()\<close> to the
  entity field they save. The definitions of \<open>submitTransfer\<close>, \<open>executeSingleTransaction\<close>
  and \<open>revertLockOnAccount\<close> above take that conversion to be exact. This section has the
  conversion itself, and the three operations with the conversion as a parameter \<open>N\<close>: at
  the identity they are the definitions above, at \<open>storedNumber\<close> they write what the code
  writes.

  First the number of binary and of decimal digits of an integer, powers of 2 and of 10 with
  an integer exponent, and the integer parts of the logarithms of a positive rational.
\<close>

function bitLength :: "int \<Rightarrow> int" where
  "bitLength n = (if n \<le> 0 then 0 else 1 + bitLength (n div 2))"
  by pat_completeness auto
termination
  by (relation "measure nat") auto

declare bitLength.simps [simp del]

function digitCount :: "int \<Rightarrow> int" where
  "digitCount n = (if n < 10 then 1 else 1 + digitCount (n div 10))"
  by pat_completeness auto
termination
  by (relation "measure nat") auto

declare digitCount.simps [simp del]

definition pow2 :: "int \<Rightarrow> decimal" where
  "pow2 k = (if 0 \<le> k then 2 ^ nat k else 1 / 2 ^ nat (- k))"

definition pow10 :: "int \<Rightarrow> decimal" where
  "pow10 k = (if 0 \<le> k then 10 ^ nat k else 1 / 10 ^ nat (- k))"

definition floorLog2 :: "decimal \<Rightarrow> int" where
  "floorLog2 x = (if 1 \<le> x then bitLength \<lfloor>x\<rfloor> - 1
                  else - bitLength (\<lceil>1 / x\<rceil> - 1))"

definition floorLog10 :: "decimal \<Rightarrow> int" where
  "floorLog10 x = (if 1 \<le> x then digitCount \<lfloor>x\<rfloor> - 1
                   else - digitCount (\<lceil>1 / x\<rceil> - 1))"

text \<open>Rounding to the nearest integer, a tie going to the even one.\<close>

definition roundHalfEven :: "decimal \<Rightarrow> int" where
  "roundHalfEven q =
     (let f = \<lfloor>q\<rfloor>; r = q - of_int f
      in if r < 1 / 2 then f else if 1 / 2 < r then f + 1 else if even f then f else f + 1)"

text \<open>
  \<^verbatim>\<open>Decimal.prototype.toNumber\<close>: the binary64 value nearest to the decimal (53 significant
  bits, ties to the even significand), as the rational it is. Magnitudes are taken in the
  normal range of the format, which holds every value of a \<^verbatim>\<open>decimal(18, 8)\<close> column.
\<close>

definition toNumber :: "decimal \<Rightarrow> decimal" where
  "toNumber x =
     (if x = 0 then 0
      else let a = \<bar>x\<bar>;
               ulp = pow2 (floorLog2 a - 52);
               n = roundHalfEven (a / ulp)
           in if x < 0 then - (of_int n * ulp) else of_int n * ulp)"

text \<open>
  \<^verbatim>\<open>Number.prototype.toString\<close>, which the database driver applies to a number parameter:
  the decimal numeral with the fewest significant digits that converts back to the number
  (of two such numerals the nearer one; of two equally near the one with the even last
  digit). \<open>shortestFrom d n k\<close> tries \<open>k\<close> digits, then more, for \<open>10 ^ (n - 1) \<le> d < 10 ^ n\<close>;
  17 digits always suffice. The result is the value of the numeral.
\<close>

function shortestFrom :: "decimal \<Rightarrow> int \<Rightarrow> nat \<Rightarrow> decimal" where
  "shortestFrom d n k =
     (if 17 < k then d
      else let scale = pow10 (n - int k);
               lo = \<lfloor>d / scale\<rfloor>;
               a = of_int lo * scale;
               b = of_int (lo + 1) * scale
           in if toNumber a = d \<and> toNumber b = d
              then (if d - a < b - d then a else if b - d < d - a then b
                    else if even lo then a else b)
              else if toNumber a = d then a
              else if toNumber b = d then b
              else shortestFrom d n (Suc k))"
  by pat_completeness auto
termination
  by (relation "measure (\<lambda>(d, n, k). 18 - k)") auto

declare shortestFrom.simps [simp del]

definition numberToString :: "decimal \<Rightarrow> decimal" where
  "numberToString d =
     (if d = 0 then 0
      else if d < 0 then - shortestFrom (- d) (floorLog10 (- d) + 1) 1
      else shortestFrom d (floorLog10 d + 1) 1)"

text \<open>
  The store reads the numeral into a \<^verbatim>\<open>decimal(18, 8)\<close> column: it keeps 8 fractional digits,
  rounding a tie away from zero.
\<close>

definition numericScale8 :: "decimal \<Rightarrow> decimal" where
  "numericScale8 x =
     (if x < 0 then - (of_int \<lfloor>- x * 10 ^ 8 + 1 / 2\<rfloor> / 10 ^ 8)
      else of_int \<lfloor>x * 10 ^ 8 + 1 / 2\<rfloor> / 10 ^ 8)"

text \<open>The column value that results when the code saves \<^verbatim>\<open>x.toNumber()\<close>.\<close>

definition storedNumber :: "decimal \<Rightarrow> decimal" where
  "storedNumber x = numericScale8 (numberToString (toNumber x))"

text \<open>
  \<^verbatim>\<open>revertLockOnAccount\<close>, \<^verbatim>\<open>submitTransfer\<close> and \<^verbatim>\<open>executeSingleTransaction\<close> with the
  conversion \<open>N\<close> wherever the source calls \<^verbatim>\<open>toNumber\<close>:
  \<^verbatim>\<open>newLocked.toNumber()\<close>; \<^verbatim>\<open>senderLocked.plus(amount).toNumber()\<close> and
  \<^verbatim>\<open>amount.toNumber()\<close>; \<^verbatim>\<open>senderBalance.minus(amount).toNumber()\<close>,
  \<^verbatim>\<open>senderLocked.minus(amount).toNumber()\<close> and
  \<^verbatim>\<open>new Decimal(recipient.balance).plus(amount).toNumber()\<close>. The comparisons are between
  exact decimals, as in the source.
\<close>

definition revertLockOnAccountWith :: "(decimal \<Rightarrow> decimal) \<Rightarrow> string \<Rightarrow> decimal \<Rightarrow> store \<Rightarrow> store" where
  "revertLockOnAccountWith N accountId amountToRevert s =
     (case findAccountById (accounts s) accountId of
        None \<Rightarrow> s
      | Some currentAccountState \<Rightarrow>
          let currentLocked = locked currentAccountState;
              newLocked = currentLocked - amountToRevert
          in updateAccountLocked accountId (if newLocked < 0 then 0 else N newLocked) s)"

definition submitTransferWith ::
  "(decimal \<Rightarrow> decimal) \<Rightarrow> string \<Rightarrow> string \<Rightarrow> string \<Rightarrow> string \<Rightarrow> string \<Rightarrow> decimal \<Rightarrow> string
   \<Rightarrow> string option \<Rightarrow> store \<Rightarrow> (error + (string \<times> string \<times> TransactionStatusTypeORM)) \<times> store" where
  "submitTransferWith N newId rnd userId fromSystemAddress toSystemAddress amt currency descr s =
     (if amt \<le> 0 then (Inl (BadRequestException ''Transfer amount must be positive.''), s)
      else if fromSystemAddress = toSystemAddress
      then (Inl (BadRequestException ''Cannot transfer to the same account.''), s)
      else
        let normalizedCurrency = toUpperCase currency in
        case findOwnedAccount s fromSystemAddress userId of
          None \<Rightarrow> (Inl (ForbiddenException ''Sender account not found or access denied.''), s)
        | Some sender \<Rightarrow>
            if acc_currency sender \<noteq> normalizedCurrency
            then (Inl (BadRequestException
                         (''Sender account currency is '' @ acc_currency sender @
                          '', but transfer is for '' @ normalizedCurrency @ ''.'')), s)
            else
              let senderBalance = balance sender;
                  senderLocked = locked sender;
                  senderAvailableBalance = senderBalance - senderLocked
              in
              if senderAvailableBalance < amt
              then (Inl (BadRequestException ''Insufficient available funds.''), s)
              else
                case findAccountByAddress (accounts s) toSystemAddress of
                  None \<Rightarrow>
                    (Inl (NotFoundException
                            (''Recipient account '' @ toSystemAddress @ '' not found.'')), s)
                | Some recipient \<Rightarrow>
                    if acc_currency recipient \<noteq> normalizedCurrency
                    then (Inl (BadRequestException
                                 (''Recipient account currency is '' @ acc_currency recipient @
                                  '', but transfer is for '' @ normalizedCurrency @ ''.'')), s)
                    else
                      let currentNonceForTx = nonce sender;
                          sender' = sender\<lparr>locked := N (senderLocked + amt),
                                           nonce := nonce sender + 1\<rparr>;
                          s1 = saveAccount sender' s;
                          transactionEntity =
                            \<lparr>tx_id = newId,
                             systemHash = ''txn_'' @ rnd,
                             fromAccountId = acc_id sender,
                             toAccountId = acc_id recipient,
                             amount = N amt,
                             fee = 0,
                             tx_currency = normalizedCurrency,
                             status = PENDING,
                             accountNonce = currentNonceForTx,
                             description =
                               Some (case descr of
                                       None \<Rightarrow> ''Transfer to '' @ toSystemAddress
                                     | Some d \<Rightarrow> if d = [] then ''Transfer to '' @ toSystemAddress
                                                 else d),
                             tx_type = TRANSFER,
                             blockId = None,
                             blockHeight = None\<rparr>
                      in
                      case insertTransaction transactionEntity s1 of
                        Inl e \<Rightarrow>
                          (Inl (InternalServerErrorException ''Transfer submission failed.''), s)
                      | Inr s2 \<Rightarrow>
                          (Inr (tx_id transactionEntity, systemHash transactionEntity,
                                status transactionEntity),
                           addToMempool (tx_id transactionEntity) s2))"

definition executeSingleTransactionWith ::
  "(decimal \<Rightarrow> decimal) \<Rightarrow> string \<Rightarrow> store \<Rightarrow> Transaction option \<times> txEnd \<times> store" where
  "executeSingleTransactionWith N txId s =
     (case findTransaction (transactions s) txId of
        None \<Rightarrow> (None, Committed, s)
      | Some t0 \<Rightarrow>
          if status t0 \<noteq> PENDING
          then ((if status t0 = PROCESSING then Some t0 else None), Committed, s)
          else
            let transaction = t0\<lparr>status := PROCESSING\<rparr>;
                s1 = saveTransaction transaction s;
                amt = amount transaction
            in
            case (findAccountById (accounts s) (fromAccountId t0),
                  findAccountById (accounts s) (toAccountId t0)) of
              (Some sender, Some recipient) \<Rightarrow>
                let senderBalance = balance sender;
                    senderLocked = locked sender
                in
                if senderLocked < amt
                then (None, LeftOpen,
                      failTransaction transaction ''Inconsistent locked amount for sender.'' s1)
                else if senderBalance < amt
                then (None, LeftOpen,
                      revertLockOnAccountWith N (acc_id sender) amt
                        (failTransaction transaction ''Insufficient total balance.'' s1))
                else
                  let s2 = saveAccount
                             (sender\<lparr>balance := N (senderBalance - amt),
                                     locked := N (senderLocked - amt)\<rparr>) s1;
                      s3 = saveAccount (recipient\<lparr>balance := N (balance recipient + amt)\<rparr>) s2
                  in (Some transaction, Committed, s3)
            | _ \<Rightarrow>
                (None, LeftOpen,
                 failTransaction transaction ''Sender or recipient account data missing.'' s1))"

text \<open>
  The committed store when a call of \<^verbatim>\<open>executeSingleTransaction\<close> has returned, which is what
  every other connection reads: the store with the writes of a call that committed, and the
  store as it was before a call that left its store transaction open.
\<close>

definition committedStore :: "store \<Rightarrow> Transaction option \<times> txEnd \<times> store \<Rightarrow> store" where
  "committedStore s out = (case out of (r, Committed, s') \<Rightarrow> s' | (r, LeftOpen, s') \<Rightarrow> s)"

section \<open>Invariants of the ledger\<close>

text \<open>The lock discipline of one account, and of every account of a store.\<close>

definition lockDiscipline :: "Account \<Rightarrow> bool" where
  "lockDiscipline a = (0 \<le> locked a \<and> locked a \<le> balance a)"

definition allLockDiscipline :: "store \<Rightarrow> bool" where
  "allLockDiscipline s = list_all lockDiscipline (accounts s)"

text \<open>The sum of \<open>balance\<close> over the accounts of one currency.\<close>

definition totalBalance :: "string \<Rightarrow> store \<Rightarrow> decimal" where
  "totalBalance c s = sum_list (map balance (filter (\<lambda>a. acc_currency a = c) (accounts s)))"

text \<open>
  The invariants of a stored transaction: a positive amount (the table's check constraint),
  two different endpoints, and endpoints of one currency.
\<close>

definition txWellFormed :: "Account list \<Rightarrow> Transaction \<Rightarrow> bool" where
  "txWellFormed rows t =
     (0 < amount t \<and> fromAccountId t \<noteq> toAccountId t \<and>
      (case (findAccountById rows (fromAccountId t), findAccountById rows (toAccountId t)) of
         (Some a, Some b) \<Rightarrow> acc_currency a = acc_currency b
       | _ \<Rightarrow> True))"


definition storeWf :: "store \<Rightarrow> bool" where
  "storeWf s =
     (distinct (map acc_id (accounts s)) \<and> list_all (txWellFormed (accounts s)) (transactions s))"

text \<open>
  The operations of the pipeline as events, and a run of them: a submission (with the id and
  the random bytes the environment supplies) or the execution of one transaction id. A run
  continues on the store with the writes of each call, also where the call left its store
  transaction open.
\<close>

datatype event =
    Submit string string string string string decimal string "string option"
  | Execute string

fun step :: "event \<Rightarrow> store \<Rightarrow> store" where
  "step (Submit newId rnd userId fromA toA amt currency descr) s =
     snd (submitTransfer newId rnd userId fromA toA amt currency descr s)"
| "step (Execute txId) s = snd (snd (executeSingleTransaction txId s))"

fun run :: "event list \<Rightarrow> store \<Rightarrow> store" where
  "run [] s = s"
| "run (e # es) s = run es (step e s)"

text \<open>Chain integrity of the block table: unique heights, and every block above height 0
  names the hash of the block one below it.\<close>

definition uniqueHeights :: "Block list \<Rightarrow> bool" where
  "uniqueHeights bs = distinct (map height bs)"

definition chainLinked :: "Block list \<Rightarrow> bool" where
  "chainLinked bs =
     list_all (\<lambda>B. 0 < height B \<longrightarrow>
                 (case getBlockByHeight bs (height B - 1) of
                    None \<Rightarrow> False
                  | Some P \<Rightarrow> previousBlockHash B = Some (blockHash P))) bs"

section \<open>Auxiliary notions\<close>

text \<open>The columns of an account that no operation of the pipeline writes.\<close>

definition acc_key :: "Account \<Rightarrow> string \<times> string" where
  "acc_key a = (acc_id a, acc_currency a)"

text \<open>The balance of an account counted towards one currency.\<close>

definition inCurrency :: "string \<Rightarrow> Account \<Rightarrow> decimal" where
  "inCurrency c a = (if acc_currency a = c then balance a else 0)"

text \<open>The entity that \<^verbatim>\<open>createBlockWithTypeORM\<close> builds, as a function of the latest block.\<close>

definition newBlockOf :: "hashFn \<Rightarrow> string \<Rightarrow> string \<Rightarrow> string list \<Rightarrow> Block option \<Rightarrow> Block" where
  "newBlockOf H newId now hashes latest =
     \<lparr>block_id = newId,
      height = (case latest of None \<Rightarrow> 0 | Some l \<Rightarrow> height l + 1),
      blockHash = fst (calculateBlockHash H
                     (bigintToString (case latest of None \<Rightarrow> 0 | Some l \<Rightarrow> height l + 1)) now
                     (case latest of None \<Rightarrow> None | Some l \<Rightarrow> Some (blockHash l)) hashes),
      previousBlockHash = (case latest of None \<Rightarrow> None | Some l \<Rightarrow> Some (blockHash l)),
      timestamp = now,
      merkleRoot = Some (calculateMerkleRoot H (sort hashes))\<rparr>"

text \<open>
  A sequence of sealing requests (generated id, clock reading, batch), each handed to
  \<^verbatim>\<open>createBlockWithTypeORM\<close>; a request that fails leaves the store as it was.
\<close>

fun sealBatches ::
  "hashFn \<Rightarrow> (string \<times> string \<times> (string \<times> string) list) list \<Rightarrow> store \<Rightarrow> store" where
  "sealBatches H [] s = s"
| "sealBatches H ((newId, now, pts) # rest) s =
     (case createBlockWithTypeORM H newId now pts s of
        Inl e \<Rightarrow> sealBatches H rest s
      | Inr (b, s') \<Rightarrow> sealBatches H rest s')"

text \<open>Whether an outcome is a \<^verbatim>\<open>NotFoundException\<close>.\<close>

definition isNotFound :: "error + 'a \<Rightarrow> bool" where
  "isNotFound r = (case r of Inl (NotFoundException m) \<Rightarrow> True | _ \<Rightarrow> False)"

section \<open>Example ledgers\<close>

text \<open>
  Two users with one NGN account each, and the transfer of 150.75 from the first account to
  the second. \<open>ledger\<close> is the store with that transfer on file, for given balances, lock
  and state of the transaction.
\<close>

definition exampleWallets :: "Wallet list" where
  "exampleWallets = [\<lparr>wallet_id = ''w1'', wallet_userId = ''u1''\<rparr>,
                     \<lparr>wallet_id = ''w2'', wallet_userId = ''u2''\<rparr>]"

definition accountA :: "decimal \<Rightarrow> decimal \<Rightarrow> int \<Rightarrow> Account" where
  "accountA bal lck n =
     \<lparr>acc_id = ''a1'', systemAddress = ''acc_A'', balance = bal, locked = lck, nonce = n,
      acc_currency = ''NGN'', walletId = ''w1''\<rparr>"

definition accountB :: "decimal \<Rightarrow> Account" where
  "accountB bal =
     \<lparr>acc_id = ''a2'', systemAddress = ''acc_B'', balance = bal, locked = 0, nonce = 0,
      acc_currency = ''NGN'', walletId = ''w2''\<rparr>"

definition exampleStore :: store where
  "exampleStore =
     \<lparr>wallets = exampleWallets, accounts = [accountA 1000 0 0, accountB 0],
      transactions = [], blocks = [], mempool = [], deadLetter = []\<rparr>"

definition exampleTx :: Transaction where
  "exampleTx =
     \<lparr>tx_id = ''tx1'', systemHash = ''txn_00ff'', fromAccountId = ''a1'', toAccountId = ''a2'',
      amount = 150.75, fee = 0, tx_currency = ''NGN'', status = PENDING, accountNonce = 0,
      description = Some ''Transfer to acc_B'', tx_type = TRANSFER, blockId = None,
      blockHeight = None\<rparr>"

definition ledger :: "decimal \<Rightarrow> decimal \<Rightarrow> decimal \<Rightarrow> Transaction \<Rightarrow> store" where
  "ledger balA lockA balB t =
     \<lparr>wallets = exampleWallets, accounts = [accountA balA lockA 1, accountB balB],
      transactions = [t], blocks = [], mempool = [''tx1''], deadLetter = []\<rparr>"

text \<open>The same transfer with the smallest amount a column holds.\<close>

definition tinyTx :: Transaction where
  "tinyTx = exampleTx\<lparr>amount := 0.00000001\<rparr>"


text \<open>The first two blocks of a chain sealed with the stand-in digest.\<close>

definition exampleBlock0 :: Block where
  "exampleBlock0 =
     \<lparr>block_id = ''b0'', height = 0,
      blockHash = ''#02024-01-01T00:00:00.000ZGENESIS_BLOCK_PREV_HASH_0000000000000txn_00ff'',
      previousBlockHash = None, timestamp = ''2024-01-01T00:00:00.000Z'',
      merkleRoot = Some ''#txn_00ff''\<rparr>"

definition exampleBlock1 :: Block where
  "exampleBlock1 =
     \<lparr>block_id = ''b1'', height = 1,
      blockHash = ''#12024-01-01T00:00:15.000Z'' @ blockHash exampleBlock0 @ ''txn_atxn_b'',
      previousBlockHash = Some (blockHash exampleBlock0),
      timestamp = ''2024-01-01T00:00:15.000Z'',
      merkleRoot = Some ''#txn_atxn_b''\<rparr>"

section \<open>Properties of the Merkle construction\<close>

lemma forPairs_eq: "forPairs H cur i nxt = nxt @ spec_pairwise H (drop i cur)"
proof (induction H cur i nxt rule: forPairs.induct)
  case (1 H cur i nxt)
  show ?case
  proof (cases "i < length cur")
    case False
    then show ?thesis by (subst forPairs.simps) simp
  next
    case True
    note inb = True
    show ?thesis
    proof (cases "i + 1 < length cur")
      case True
      then have d: "drop i cur = cur ! i # cur ! (i + 1) # drop (i + 2) cur"
        using inb by (simp add: Cons_nth_drop_Suc)
      show ?thesis
        using "1.IH"[OF inb] True inb by (subst forPairs.simps) (simp add: d)
    next
      case False
      then have d: "drop i cur = [cur ! i]" and e: "drop (i + 2) cur = []"
        using inb by (simp_all add: Cons_nth_drop_Suc[symmetric])
      show ?thesis
        using "1.IH"[OF inb] False inb by (subst forPairs.simps) (simp add: d e)
    qed
  qed
qed

lemma whileLevels_eq: "whileLevels H xs = spec_reduce H xs"
proof (induction H xs rule: whileLevels.induct)
  case (1 H cur)
  show ?case
  proof (cases "1 < length cur")
    case True
    then show ?thesis
      using "1.IH" by (subst whileLevels.simps, subst spec_reduce.simps) (simp add: forPairs_eq)
  next
    case False
    then show ?thesis
      by (subst whileLevels.simps, subst spec_reduce.simps) simp
  qed
qed

lemma spec_pairwise_length: "length (spec_pairwise H xs) = (length xs + 1) div 2"
  by (induction H xs rule: spec_pairwise.induct) simp_all

lemma spec_reduce_length: "xs \<noteq> [] \<Longrightarrow> length (spec_reduce H xs) = 1"
proof (induction H xs rule: spec_reduce.induct)
  case (1 H level)
  show ?case
  proof (cases "length level \<le> 1")
    case True
    with "1.prems" show ?thesis
      by (subst spec_reduce.simps) (cases level; simp)
  next
    case False
    then have "spec_pairwise H level \<noteq> []"
      using spec_pairwise_length[of H level] by (cases "spec_pairwise H level") auto
    with "1.IH" False show ?thesis
      by (subst spec_reduce.simps) simp
  qed
qed

section \<open>Properties of the ledger operations\<close>

subsection \<open>Lookups\<close>

lemma findAccountById_SomeD:
  "findAccountById rows i = Some a \<Longrightarrow> a \<in> set rows \<and> acc_id a = i"
  unfolding findAccountById_def by (auto simp: find_Some_iff)

lemma findTransaction_SomeD:
  "findTransaction rows i = Some t \<Longrightarrow> t \<in> set rows \<and> tx_id t = i"
  unfolding findTransaction_def by (auto simp: find_Some_iff)

lemma findTransaction_in_map:
  "findTransaction rows i = Some t0 \<Longrightarrow> tx_id t = i \<Longrightarrow>
   findTransaction (map (\<lambda>r. if tx_id r = i then t else r) rows) i = Some t"
  unfolding findTransaction_def by (induction rows) (auto split: if_splits)

lemma accounts_saveTransaction [simp]: "accounts (saveTransaction t s) = accounts s"
  by (simp add: saveTransaction_def)

lemma accounts_failTransaction [simp]: "accounts (failTransaction t reason s) = accounts s"
  by (simp add: failTransaction_def)

lemma transactions_saveAccount [simp]: "transactions (saveAccount a s) = transactions s"
  by (simp add: saveAccount_def)

lemma transactions_updateAccountLocked [simp]:
  "transactions (updateAccountLocked i v s) = transactions s"
  by (simp add: updateAccountLocked_def)

lemma transactions_revertLockOnAccount [simp]:
  "transactions (revertLockOnAccount i v s) = transactions s"
  by (simp add: revertLockOnAccount_def Let_def split: option.splits)

lemma findTransaction_failTransaction:
  "findTransaction (transactions s) i = Some t0 \<Longrightarrow> tx_id t = i \<Longrightarrow>
   findTransaction (transactions (failTransaction t reason s)) i =
     Some (t\<lparr>status := FAILED, description := Some (failureDescription (description t) reason)\<rparr>)"
  unfolding failTransaction_def saveTransaction_def
  by (simp add: findTransaction_in_map)

lemma findTransaction_saveTransaction:
  "findTransaction (transactions s) i = Some t0 \<Longrightarrow> tx_id t = i \<Longrightarrow>
   findTransaction (transactions (saveTransaction t s)) i = Some t"
  unfolding saveTransaction_def by (simp add: findTransaction_in_map)

lemma execute_not_pending:
  assumes "findTransaction (transactions s) txId = Some t" and "status t \<noteq> PENDING"
  shows "executeSingleTransaction txId s =
           ((if status t = PROCESSING then Some t else None), Committed, s)"
  using assms by (simp add: executeSingleTransaction_def)

lemma execute_Some_cases:
  assumes "executeSingleTransaction txId s = (Some t, e, s')"
  shows "findTransaction (transactions s') txId = Some t \<and> status t = PROCESSING"
proof -
  obtain t0 where t0: "findTransaction (transactions s) txId = Some t0"
    using assms by (auto simp: executeSingleTransaction_def split: option.splits)
  then have id0: "tx_id t0 = txId" by (simp add: findTransaction_SomeD)
  show ?thesis
  proof (cases "status t0 = PENDING")
    case False
    with assms t0 show ?thesis
      by (auto simp: executeSingleTransaction_def split: if_splits)
  next
    case True
    have "findTransaction (transactions (saveTransaction (t0\<lparr>status := PROCESSING\<rparr>) s)) txId
            = Some (t0\<lparr>status := PROCESSING\<rparr>)"
      using t0 id0 by (simp add: findTransaction_saveTransaction)
    with assms t0 True show ?thesis
      by (auto simp: executeSingleTransaction_def Let_def split: option.splits if_splits)
  qed
qed

lemma execute_idempotent:
  assumes "executeSingleTransaction txId s = (Some t, e, s')"
  shows "executeSingleTransaction txId s' = (Some t, Committed, s')"
  using execute_Some_cases[OF assms] by (simp add: execute_not_pending)

lemma run_replicate_fixed:
  assumes "step ev s = s"
  shows "run (replicate n ev) s = s"
  using assms by (induction n) simp_all


lemma findAccountById_updateLocked_other:
  "j \<noteq> i \<Longrightarrow>
   findAccountById (map (\<lambda>r. if acc_id r = i then r\<lparr>locked := v\<rparr> else r) rows) j
     = findAccountById rows j"
  unfolding findAccountById_def by (induction rows) (auto split: if_splits)


lemma submitTransfer_InrD:
  assumes "submitTransfer newId rnd userId fromA toA amt cur descr s = (Inr receipt, s')"
  shows "\<exists>sender recipient newTx.
           findOwnedAccount s fromA userId = Some sender \<and>
           findAccountByAddress (accounts s) toA = Some recipient \<and>
           accounts s' = map (\<lambda>r. if acc_id r = acc_id sender
                                   then sender\<lparr>locked := locked sender + amt, nonce := nonce sender + 1\<rparr>
                                   else r) (accounts s) \<and>
           transactions s' = transactions s @ [newTx] \<and>
           tx_id newTx = newId \<and> newId \<notin> set (map tx_id (transactions s)) \<and>
           systemHash newTx = ''txn_'' @ rnd \<and>
           systemHash newTx \<notin> set (map systemHash (transactions s)) \<and>
           status newTx = PENDING \<and> accountNonce newTx = nonce sender \<and>
           fromAccountId newTx = acc_id sender \<and> toAccountId newTx = acc_id recipient \<and>
           amount newTx = amt \<and> tx_currency newTx = toUpperCase cur \<and>
           receipt = (newId, ''txn_'' @ rnd, PENDING) \<and>
           mempool s' = newId # mempool s \<and>
           0 < amt \<and> fromA \<noteq> toA \<and> amt \<le> balance sender - locked sender \<and>
           acc_currency sender = toUpperCase cur \<and> acc_currency recipient = toUpperCase cur \<and>
           wallets s' = wallets s \<and> blocks s' = blocks s \<and> deadLetter s' = deadLetter s"
  using assms
  unfolding submitTransfer_def Let_def insertTransaction_def saveAccount_def addToMempool_def
  by (auto split: if_splits option.splits sum.splits)

subsection \<open>Lock discipline\<close>

lemma acc_id_unique:
  "distinct (map acc_id rows) \<Longrightarrow> a \<in> set rows \<Longrightarrow> r \<in> set rows \<Longrightarrow> acc_id r = acc_id a
   \<Longrightarrow> r = a"
  by (meson distinct_map inj_onD)


lemma list_all_replace:
  "list_all P rows \<Longrightarrow> P a \<Longrightarrow> list_all P (map (\<lambda>r. if c r then a else r) rows)"
  by (induction rows) simp_all


lemma allLockDiscipline_saveTransaction [simp]:
  "allLockDiscipline (saveTransaction t s) = allLockDiscipline s"
  by (simp add: allLockDiscipline_def)

lemma allLockDiscipline_failTransaction [simp]:
  "allLockDiscipline (failTransaction t reason s) = allLockDiscipline s"
  by (simp add: allLockDiscipline_def)

lemma allLockDiscipline_markTransactionFailed [simp]:
  "allLockDiscipline (markTransactionFailed i reason s) = allLockDiscipline s"
  by (simp add: allLockDiscipline_def markTransactionFailed_def split: option.splits)






lemma map_acc_id_saveAccount: "map acc_id (accounts (saveAccount a s)) = map acc_id (accounts s)"
  by (auto simp: saveAccount_def)

lemma map_acc_id_revert: "map acc_id (accounts (revertLockOnAccount i v s)) = map acc_id (accounts s)"
  by (auto simp: revertLockOnAccount_def updateAccountLocked_def Let_def split: option.splits)


subsection \<open>What the operations leave alone\<close>

lemma executeSingleTransaction_ids:
  "map acc_id (accounts (snd (snd (executeSingleTransaction txId s)))) = map acc_id (accounts s)"
  by (simp add: executeSingleTransaction_def Let_def map_acc_id_saveAccount map_acc_id_revert
           split: option.splits)

lemma submitTransfer_ids:
  "map acc_id (accounts (snd (submitTransfer newId rnd userId fromA toA amt cur descr s)))
     = map acc_id (accounts s)"
  by (auto simp: submitTransfer_def Let_def saveAccount_def insertTransaction_def addToMempool_def
           split: option.splits sum.splits)


lemma list_all_saveTransaction:
  "list_all P (transactions s) \<Longrightarrow> P t \<Longrightarrow> list_all P (transactions (saveTransaction t s))"
  by (simp add: saveTransaction_def list_all_replace)

lemma list_all_failTransaction:
  "list_all P (transactions s) \<Longrightarrow>
   P (t\<lparr>status := FAILED, description := Some (failureDescription (description t) reason)\<rparr>) \<Longrightarrow>
   list_all P (transactions (failTransaction t reason s))"
  by (simp add: failTransaction_def list_all_saveTransaction)

text \<open>A property of transactions that only reads amount and endpoints survives execution.\<close>

lemma executeSingleTransaction_tx_pred:
  assumes all: "list_all P (transactions s)"
    and stable: "\<And>t st d. P t \<Longrightarrow> P (t\<lparr>status := st\<rparr>) \<and> P (t\<lparr>status := st, description := d\<rparr>)"
  shows "list_all P (transactions (snd (snd (executeSingleTransaction txId s))))"
proof (cases "findTransaction (transactions s) txId")
  case None
  then show ?thesis using all by (simp add: executeSingleTransaction_def)
next
  case (Some t0)
  then have "P t0" using all by (auto simp: list_all_iff dest: findTransaction_SomeD)
  then have p1: "P (t0\<lparr>status := PROCESSING\<rparr>)"
    and p2: "P (t0\<lparr>status := FAILED, description := d\<rparr>)" for d
    using stable[of t0] by simp_all
  have s1: "list_all P (transactions (saveTransaction (t0\<lparr>status := PROCESSING\<rparr>) s))"
    using all p1 by (rule list_all_saveTransaction)
  have f: "list_all P (transactions (failTransaction (t0\<lparr>status := PROCESSING\<rparr>) reason
             (saveTransaction (t0\<lparr>status := PROCESSING\<rparr>) s)))" for reason
    using s1 p2 by (intro list_all_failTransaction) simp_all
  show ?thesis
    using Some all s1 f
    by (simp add: executeSingleTransaction_def Let_def split: option.splits)
qed







subsection \<open>Conservation\<close>

lemma totalBalance_alt: "totalBalance c s = sum_list (map (inCurrency c) (accounts s))"
  unfolding totalBalance_def inCurrency_def by (rule sum_list_map_filter')

lemma sum_list_replace_by_id:
  fixes f :: "Account \<Rightarrow> decimal"
  assumes "distinct (map acc_id rows)" and "a \<in> set rows"
  shows "sum_list (map f (map (\<lambda>r. if acc_id r = acc_id a then a' else r) rows))
           = sum_list (map f rows) - f a + f a'"
  using assms
proof (induction rows)
  case Nil
  then show ?case by simp
next
  case (Cons x xs)
  show ?case
  proof (cases "x = a")
    case True
    then have "acc_id a \<notin> acc_id ` set xs" using Cons.prems by simp
    then have "\<forall>r \<in> set xs. acc_id r \<noteq> acc_id a" by (metis imageI)
    then have "map (\<lambda>r. if acc_id r = acc_id a then a' else r) xs = xs"
      by (simp add: map_idI)
    then show ?thesis using True by simp
  next
    case False
    then have "a \<in> set xs" and "acc_id x \<noteq> acc_id a" using Cons.prems by auto
    then show ?thesis using Cons by simp
  qed
qed

lemma totalBalance_saveAccount:
  assumes "distinct (map acc_id (accounts s))" and "findAccountById (accounts s) i = Some a"
    and "acc_id a' = i"
  shows "totalBalance c (saveAccount a' s) = totalBalance c s - inCurrency c a + inCurrency c a'"
proof -
  have "a \<in> set (accounts s)" "acc_id a = i" using assms(2) by (auto dest: findAccountById_SomeD)
  then show ?thesis
    using sum_list_replace_by_id[OF assms(1), of a "inCurrency c" a'] assms(3)
    by (simp add: totalBalance_alt saveAccount_def)
qed

lemma totalBalance_saveTransaction [simp]:
  "totalBalance c (saveTransaction t s) = totalBalance c s"
  by (simp add: totalBalance_def)

lemma totalBalance_failTransaction [simp]:
  "totalBalance c (failTransaction t reason s) = totalBalance c s"
  by (simp add: totalBalance_def)

lemma totalBalance_revert [simp]:
  "totalBalance c (revertLockOnAccount i v s) = totalBalance c s"
proof -
  have "inCurrency c \<circ> (\<lambda>r. if acc_id r = i then r\<lparr>locked := w\<rparr> else r) = inCurrency c" for w
    by (auto simp: inCurrency_def fun_eq_iff)
  then show ?thesis
    by (simp add: totalBalance_alt revertLockOnAccount_def updateAccountLocked_def Let_def
             split: option.splits)
qed

lemma findAccountById_replace_other:
  "acc_id a \<noteq> j \<Longrightarrow>
   findAccountById (map (\<lambda>r. if acc_id r = acc_id a then a else r) rows) j = findAccountById rows j"
  unfolding findAccountById_def by (induction rows) auto

lemma findAccountById_replace_same:
  "findAccountById rows (acc_id a) = Some a0 \<Longrightarrow>
   findAccountById (map (\<lambda>r. if acc_id r = acc_id a then a else r) rows) (acc_id a) = Some a"
  unfolding findAccountById_def by (induction rows) (auto split: if_splits)

lemma findAccountById_saveAccount_other:
  "acc_id a \<noteq> j \<Longrightarrow> findAccountById (accounts (saveAccount a s)) j = findAccountById (accounts s) j"
  by (simp add: saveAccount_def findAccountById_replace_other)

lemma findAccountById_saveAccount_same:
  "findAccountById (accounts s) (acc_id a) = Some a0 \<Longrightarrow>
   findAccountById (accounts (saveAccount a s)) (acc_id a) = Some a"
  by (simp add: saveAccount_def findAccountById_replace_same)

lemma txWellFormed_found:
  "storeWf s \<Longrightarrow> findTransaction (transactions s) i = Some t \<Longrightarrow> txWellFormed (accounts s) t"
  by (auto simp: storeWf_def list_all_iff dest: findTransaction_SomeD)

text \<open>The accounts after a successful execution.\<close>

lemma execute_success_store:
  assumes "findTransaction (transactions s) txId = Some t0" and "status t0 = PENDING"
    and "findAccountById (accounts s) (fromAccountId t0) = Some sender"
    and "findAccountById (accounts s) (toAccountId t0) = Some recipient"
    and "amount t0 \<le> locked sender" and "amount t0 \<le> balance sender"
  shows "executeSingleTransaction txId s =
           (Some (t0\<lparr>status := PROCESSING\<rparr>), Committed,
            saveAccount (recipient\<lparr>balance := balance recipient + amount t0\<rparr>)
              (saveAccount (sender\<lparr>balance := balance sender - amount t0,
                                   locked := locked sender - amount t0\<rparr>)
                 (saveTransaction (t0\<lparr>status := PROCESSING\<rparr>) s)))"
  using assms by (simp add: executeSingleTransaction_def Let_def)

lemma execute_Some_pending:
  assumes "findTransaction (transactions s) txId = Some t0" and "status t0 = PENDING"
    and "executeSingleTransaction txId s = (Some t, e, s')"
  shows "\<exists>sender recipient.
           findAccountById (accounts s) (fromAccountId t0) = Some sender \<and>
           findAccountById (accounts s) (toAccountId t0) = Some recipient \<and>
           amount t0 \<le> locked sender \<and> amount t0 \<le> balance sender"
  using assms
  by (auto simp: executeSingleTransaction_def Let_def split: option.splits if_splits)

lemma totalBalance_execute:
  assumes wf: "storeWf s"
  shows "totalBalance c (snd (snd (executeSingleTransaction txId s))) = totalBalance c s"
proof (cases "findTransaction (transactions s) txId")
  case None
  then show ?thesis by (simp add: executeSingleTransaction_def)
next
  case (Some t0)
  have pk: "distinct (map acc_id (accounts s))" using wf by (simp add: storeWf_def)
  have twf: "txWellFormed (accounts s) t0" using wf Some by (rule txWellFormed_found)
  show ?thesis
  proof (cases "status t0 = PENDING")
    case False
    then show ?thesis using Some by (simp add: executeSingleTransaction_def)
  next
    case True
    show ?thesis
    proof (cases "findAccountById (accounts s) (fromAccountId t0)")
      case None
      then show ?thesis using Some True by (simp add: executeSingleTransaction_def Let_def)
    next
      case sn: (Some sender)
      show ?thesis
      proof (cases "findAccountById (accounts s) (toAccountId t0)")
        case None
        then show ?thesis using Some True sn by (simp add: executeSingleTransaction_def Let_def)
      next
        case rc: (Some recipient)
        have ne: "fromAccountId t0 \<noteq> toAccountId t0"
          and cur: "acc_currency sender = acc_currency recipient"
          using twf sn rc by (simp_all add: txWellFormed_def)
        have ids: "acc_id sender = fromAccountId t0" "acc_id recipient = toAccountId t0"
          using sn rc by (simp_all add: findAccountById_SomeD)
        show ?thesis
        proof (cases "amount t0 \<le> locked sender \<and> amount t0 \<le> balance sender")
          case False
          then show ?thesis using Some True sn rc
            by (auto simp: executeSingleTransaction_def Let_def)
        next
          case ok: True
          let ?s1 = "saveTransaction (t0\<lparr>status := PROCESSING\<rparr>) s"
          let ?sender' = "sender\<lparr>balance := balance sender - amount t0,
                                  locked := locked sender - amount t0\<rparr>"
          let ?recipient' = "recipient\<lparr>balance := balance recipient + amount t0\<rparr>"
          let ?s2 = "saveAccount ?sender' ?s1"
          have res: "snd (snd (executeSingleTransaction txId s)) = saveAccount ?recipient' ?s2"
            using execute_success_store[OF Some True sn rc] ok by simp
          have t1: "totalBalance c ?s2 =
                      totalBalance c s - inCurrency c sender + inCurrency c ?sender'"
            using totalBalance_saveAccount[of ?s1 "fromAccountId t0" sender ?sender' c] pk sn ids
            by simp
          have pk2: "distinct (map acc_id (accounts ?s2))"
            using pk by (simp add: map_acc_id_saveAccount)
          have rc2: "findAccountById (accounts ?s2) (toAccountId t0) = Some recipient"
            using rc ne ids by (simp add: findAccountById_saveAccount_other)
          have t2: "totalBalance c (saveAccount ?recipient' ?s2) =
                      totalBalance c ?s2 - inCurrency c recipient + inCurrency c ?recipient'"
            using totalBalance_saveAccount[OF pk2 rc2, of ?recipient' c] ids by simp
          show ?thesis
            unfolding res t2 t1 using cur by (simp add: inCurrency_def)
        qed
      qed
    qed
  qed
qed

lemma submitTransfer_only_locked_nonce:
  assumes "distinct (map acc_id (accounts s))"
  shows "map (\<lambda>a. a\<lparr>locked := 0, nonce := 0\<rparr>)
             (accounts (snd (submitTransfer newId rnd userId fromA toA amt cur descr s)))
         = map (\<lambda>a. a\<lparr>locked := 0, nonce := 0\<rparr>) (accounts s)"
proof (cases "fst (submitTransfer newId rnd userId fromA toA amt cur descr s)")
  case (Inl e)
  then have "snd (submitTransfer newId rnd userId fromA toA amt cur descr s) = s"
    by (auto simp: submitTransfer_def Let_def split: if_splits option.splits sum.splits)
  then show ?thesis by simp
next
  case (Inr receipt)
  then have "submitTransfer newId rnd userId fromA toA amt cur descr s =
               (Inr receipt, snd (submitTransfer newId rnd userId fromA toA amt cur descr s))"
    by (metis prod.collapse)
  from submitTransfer_InrD[OF this]
  obtain sender where sender: "findOwnedAccount s fromA userId = Some sender"
    and acc: "accounts (snd (submitTransfer newId rnd userId fromA toA amt cur descr s)) =
                map (\<lambda>r. if acc_id r = acc_id sender
                          then sender\<lparr>locked := locked sender + amt, nonce := nonce sender + 1\<rparr>
                          else r) (accounts s)"
    by blast
  have mem: "sender \<in> set (accounts s)"
    using sender by (auto simp: findOwnedAccount_def find_Some_iff)
  have "(if acc_id r = acc_id sender
         then sender\<lparr>locked := locked sender + amt, nonce := nonce sender + 1\<rparr> else r)
          \<lparr>locked := 0, nonce := 0\<rparr> = r\<lparr>locked := 0, nonce := 0\<rparr>"
    if "r \<in> set (accounts s)" for r
    using acc_id_unique[OF assms mem that] by auto
  then show ?thesis unfolding acc by (simp add: comp_def)
qed

lemma submitTransfer_balances:
  assumes "distinct (map acc_id (accounts s))"
  shows "map balance (accounts (snd (submitTransfer newId rnd userId fromA toA amt cur descr s)))
         = map balance (accounts s)"
proof -
  have "map balance rows = map balance (map (\<lambda>a. a\<lparr>locked := 0, nonce := 0\<rparr>) rows)" for rows
    by (simp add: comp_def)
  then show ?thesis
    using submitTransfer_only_locked_nonce[OF assms] by metis
qed

lemma totalBalance_submitTransfer:
  assumes "distinct (map acc_id (accounts s))"
  shows "totalBalance c (snd (submitTransfer newId rnd userId fromA toA amt cur descr s))
         = totalBalance c s"
proof -
  have "map (inCurrency c) rows = map (inCurrency c) (map (\<lambda>a. a\<lparr>locked := 0, nonce := 0\<rparr>) rows)"
    for rows by (simp add: comp_def inCurrency_def)
  then show ?thesis
    unfolding totalBalance_alt using submitTransfer_only_locked_nonce[OF assms] by metis
qed

subsection \<open>Well-formedness is preserved\<close>

lemma findAccountById_mem:
  assumes "distinct (map acc_id rows)" and "a \<in> set rows"
  shows "findAccountById rows (acc_id a) = Some a"
proof (cases "findAccountById rows (acc_id a)")
  case None
  then show ?thesis using assms(2) by (auto simp: findAccountById_def find_None_iff)
next
  case (Some b)
  then have "b \<in> set rows" "acc_id b = acc_id a" by (auto dest: findAccountById_SomeD)
  then show ?thesis using Some acc_id_unique[OF assms, of b] by simp
qed

lemma currency_lookup_cong:
  "map acc_key rows' = map acc_key rows \<Longrightarrow>
   map_option acc_currency (findAccountById rows' i) = map_option acc_currency (findAccountById rows i)"
proof (induction rows arbitrary: rows')
  case Nil
  then show ?case by simp
next
  case (Cons x xs)
  then obtain y ys where r: "rows' = y # ys" "acc_key y = acc_key x" "map acc_key ys = map acc_key xs"
    by (cases rows') auto
  have "acc_id y = acc_id x" "acc_currency y = acc_currency x"
    using r(2) by (simp_all add: acc_key_def)
  then show ?case using Cons.IH[OF r(3)] r(1) by (simp add: findAccountById_def)
qed

lemma txWellFormed_cong:
  assumes "map acc_key rows' = map acc_key rows"
  shows "txWellFormed rows' t = txWellFormed rows t"
proof -
  have "map_option acc_currency (findAccountById rows' i) = map_option acc_currency (findAccountById rows i)"
    for i using assms by (rule currency_lookup_cong)
  from this[of "fromAccountId t"] this[of "toAccountId t"] show ?thesis
    unfolding txWellFormed_def
    by (cases "findAccountById rows' (fromAccountId t)"; cases "findAccountById rows (fromAccountId t)";
        cases "findAccountById rows' (toAccountId t)"; cases "findAccountById rows (toAccountId t)")
       simp_all
qed

lemma acc_key_saveAccount:
  assumes "distinct (map acc_id (accounts s))" and "findAccountById (accounts s) i = Some a"
    and "acc_id a' = i" and "acc_currency a' = acc_currency a"
  shows "map acc_key (accounts (saveAccount a' s)) = map acc_key (accounts s)"
proof -
  have mem: "a \<in> set (accounts s)" and ida: "acc_id a = i"
    using assms(2) by (auto dest: findAccountById_SomeD)
  have "acc_key (if acc_id r = acc_id a' then a' else r) = acc_key r" if "r \<in> set (accounts s)" for r
    using acc_id_unique[OF assms(1) mem that] assms(3,4) ida by (auto simp: acc_key_def)
  then show ?thesis by (simp add: saveAccount_def)
qed

lemma acc_key_revert:
  "map acc_key (accounts (revertLockOnAccount i v s)) = map acc_key (accounts s)"
  by (auto simp: revertLockOnAccount_def updateAccountLocked_def Let_def acc_key_def
           split: option.splits)

lemma acc_key_execute:
  assumes pk: "distinct (map acc_id (accounts s))"
  shows "map acc_key (accounts (snd (snd (executeSingleTransaction txId s)))) = map acc_key (accounts s)"
proof (cases "findTransaction (transactions s) txId")
  case None
  then show ?thesis by (simp add: executeSingleTransaction_def)
next
  case (Some t0)
  show ?thesis
  proof (cases "status t0 = PENDING \<and>
                (\<exists>sender recipient. findAccountById (accounts s) (fromAccountId t0) = Some sender \<and>
                   findAccountById (accounts s) (toAccountId t0) = Some recipient \<and>
                   amount t0 \<le> locked sender \<and> amount t0 \<le> balance sender)")
    case False
    then show ?thesis using Some
      by (auto simp: executeSingleTransaction_def Let_def acc_key_revert split: option.splits)
  next
    case True
    then obtain sender recipient where pend: "status t0 = PENDING"
      and sn: "findAccountById (accounts s) (fromAccountId t0) = Some sender"
      and rc: "findAccountById (accounts s) (toAccountId t0) = Some recipient"
      and ok: "amount t0 \<le> locked sender" "amount t0 \<le> balance sender"
      by blast
    let ?s1 = "saveTransaction (t0\<lparr>status := PROCESSING\<rparr>) s"
    let ?sender' = "sender\<lparr>balance := balance sender - amount t0,
                            locked := locked sender - amount t0\<rparr>"
    let ?recipient' = "recipient\<lparr>balance := balance recipient + amount t0\<rparr>"
    let ?s2 = "saveAccount ?sender' ?s1"
    have res: "snd (snd (executeSingleTransaction txId s)) = saveAccount ?recipient' ?s2"
      using execute_success_store[OF Some pend sn rc ok] by simp
    have ids: "acc_id sender = fromAccountId t0" "acc_id recipient = toAccountId t0"
      using sn rc by (simp_all add: findAccountById_SomeD)
    have k2: "map acc_key (accounts ?s2) = map acc_key (accounts s)"
      using acc_key_saveAccount[of ?s1 "fromAccountId t0" sender ?sender'] pk sn ids by simp
    have pk2: "distinct (map acc_id (accounts ?s2))"
      using pk by (simp add: map_acc_id_saveAccount)
    have "findAccountById (accounts ?s2) (toAccountId t0) \<noteq> None"
      using currency_lookup_cong[OF k2, of "toAccountId t0"] rc by auto
    then obtain r2 where rc2: "findAccountById (accounts ?s2) (toAccountId t0) = Some r2" by blast
    then have "acc_currency r2 = acc_currency recipient"
      using currency_lookup_cong[OF k2, of "toAccountId t0"] rc by simp
    then have "map acc_key (accounts (saveAccount ?recipient' ?s2)) = map acc_key (accounts ?s2)"
      using acc_key_saveAccount[OF pk2 rc2, of ?recipient'] ids by simp
    then show ?thesis unfolding res using k2 by simp
  qed
qed

lemma txWellFormed_stable:
  "txWellFormed rows t \<Longrightarrow>
   txWellFormed rows (t\<lparr>status := st\<rparr>) \<and> txWellFormed rows (t\<lparr>status := st, description := d\<rparr>)"
  by (simp add: txWellFormed_def)

lemma storeWf_execute:
  assumes "storeWf s"
  shows "storeWf (snd (snd (executeSingleTransaction txId s)))"
proof -
  have pk: "distinct (map acc_id (accounts s))"
    and txs: "list_all (txWellFormed (accounts s)) (transactions s)"
    using assms by (simp_all add: storeWf_def)
  have "list_all (txWellFormed (accounts s))
          (transactions (snd (snd (executeSingleTransaction txId s))))"
    using txs by (rule executeSingleTransaction_tx_pred) (rule txWellFormed_stable)
  moreover have "txWellFormed (accounts (snd (snd (executeSingleTransaction txId s)))) =
                 txWellFormed (accounts s)"
    using txWellFormed_cong[OF acc_key_execute[OF pk]] by blast
  ultimately show ?thesis
    using pk by (simp add: storeWf_def executeSingleTransaction_ids)
qed

lemma acc_key_submitTransfer:
  assumes "distinct (map acc_id (accounts s))"
  shows "map acc_key (accounts (snd (submitTransfer newId rnd userId fromA toA amt cur descr s)))
         = map acc_key (accounts s)"
proof -
  have "map acc_key rows = map acc_key (map (\<lambda>a. a\<lparr>locked := 0, nonce := 0\<rparr>) rows)" for rows
    by (simp add: comp_def acc_key_def)
  then show ?thesis
    using submitTransfer_only_locked_nonce[OF assms] by metis
qed

lemma storeWf_submitTransfer:
  assumes wf: "storeWf s"
  shows "storeWf (snd (submitTransfer newId rnd userId fromA toA amt cur descr s))"
proof (cases "fst (submitTransfer newId rnd userId fromA toA amt cur descr s)")
  case (Inl e)
  then have "snd (submitTransfer newId rnd userId fromA toA amt cur descr s) = s"
    by (auto simp: submitTransfer_def Let_def split: if_splits option.splits sum.splits)
  then show ?thesis using wf by simp
next
  case (Inr receipt)
  let ?s' = "snd (submitTransfer newId rnd userId fromA toA amt cur descr s)"
  have pk: "distinct (map acc_id (accounts s))"
    and txs: "list_all (txWellFormed (accounts s)) (transactions s)"
    using wf by (simp_all add: storeWf_def)
  from Inr have "submitTransfer newId rnd userId fromA toA amt cur descr s = (Inr receipt, ?s')"
    by (metis prod.collapse)
  from submitTransfer_InrD[OF this]
  obtain sender recipient newTx where
        sender: "findOwnedAccount s fromA userId = Some sender"
    and recipient: "findAccountByAddress (accounts s) toA = Some recipient"
    and txs': "transactions ?s' = transactions s @ [newTx]"
    and new: "fromAccountId newTx = acc_id sender" "toAccountId newTx = acc_id recipient"
             "amount newTx = amt"
    and pos: "0 < amt" and ne: "fromA \<noteq> toA"
    and cur: "acc_currency sender = toUpperCase cur" "acc_currency recipient = toUpperCase cur"
    by blast
  have ms: "sender \<in> set (accounts s)" "systemAddress sender = fromA"
    using sender by (auto simp: findOwnedAccount_def find_Some_iff)
  have mr: "recipient \<in> set (accounts s)" "systemAddress recipient = toA"
    using recipient by (auto simp: findAccountByAddress_def find_Some_iff)
  have idne: "acc_id sender \<noteq> acc_id recipient"
    using acc_id_unique[OF pk ms(1) mr(1)] ms(2) mr(2) ne by auto
  have "txWellFormed (accounts s) newTx"
    using new pos idne cur findAccountById_mem[OF pk ms(1)] findAccountById_mem[OF pk mr(1)]
    by (simp add: txWellFormed_def)
  then have "list_all (txWellFormed (accounts s)) (transactions ?s')"
    using txs txs' by simp
  moreover have "txWellFormed (accounts ?s') = txWellFormed (accounts s)"
    using txWellFormed_cong[OF acc_key_submitTransfer[OF pk]] by blast
  ultimately show ?thesis
    using pk by (simp add: storeWf_def submitTransfer_ids)
qed

lemma storeWf_step: "storeWf s \<Longrightarrow> storeWf (step ev s)"
  by (cases ev) (simp_all add: storeWf_execute storeWf_submitTransfer)

lemma totalBalance_step: "storeWf s \<Longrightarrow> totalBalance c (step ev s) = totalBalance c s"
  by (cases ev) (simp_all add: totalBalance_execute totalBalance_submitTransfer storeWf_def)

lemma totalBalance_run: "storeWf s \<Longrightarrow> totalBalance c (run evs s) = totalBalance c s"
  by (induction evs arbitrary: s) (simp_all add: storeWf_step totalBalance_step)

subsection \<open>Blocks\<close>

lemma sort_permuted:
  fixes hs :: "'a::linorder list"
  assumes "mset hs' = mset hs"
  shows "sort hs' = sort hs"
proof (rule properties_for_sort)
  show "mset (sort hs) = mset hs'" using assms by simp
  show "sorted (sort hs)" by simp
qed

lemma calculateBlockHash_permuted:
  "mset hs' = mset hs \<Longrightarrow>
   calculateBlockHash H heightStr ts prev hs' = calculateBlockHash H heightStr ts prev hs"
  using sort_permuted[of hs' hs] by (simp add: calculateBlockHash_def)

lemma calculateMerkleRoot_permuted:
  assumes "mset hs' = mset hs"
  shows "calculateMerkleRoot H hs' = calculateMerkleRoot H hs"
proof -
  have len: "length hs' = length hs" using assms by (rule mset_eq_length)
  show ?thesis
  proof (cases "length hs = 1")
    case True
    then obtain x where x: "hs = [x]" by (cases hs) auto
    with len obtain y where y: "hs' = [y]" by (cases hs') auto
    from assms x y have "x = y" by simp
    then show ?thesis using x y by simp
  next
    case False
    then show ?thesis using len sort_permuted[OF assms] by (simp add: calculateMerkleRoot_def)
  qed
qed

lemma createBlockWithTypeORM_permuted:
  assumes "mset (map snd pts') = mset (map snd pts)"
  shows "createBlockWithTypeORM H newId now pts' s = createBlockWithTypeORM H newId now pts s"
proof -
  have "length (map snd pts') = length (map snd pts)" using assms by (rule mset_eq_length)
  then have "length pts' = length pts" by simp
  then show ?thesis
    using calculateBlockHash_permuted[OF assms, of H] by (simp add: createBlockWithTypeORM_def)
qed

lemma getLatestBlock_None: "getLatestBlock bs = None \<longleftrightarrow> bs = []"
  by (induction bs) (auto split: option.splits)

lemma getLatestBlock_Some:
  "getLatestBlock bs = Some l \<Longrightarrow> l \<in> set bs \<and> (\<forall>b \<in> set bs. height b \<le> height l)"
proof (induction bs arbitrary: l)
  case Nil
  then show ?case by simp
next
  case (Cons b bs)
  show ?case
  proof (cases "getLatestBlock bs")
    case None
    then have "bs = []" by (simp add: getLatestBlock_None)
    then show ?thesis using Cons.prems by simp
  next
    case (Some m)
    from Cons.IH[OF Some] have m: "m \<in> set bs" "\<forall>x \<in> set bs. height x \<le> height m" by simp_all
    show ?thesis
    proof (cases "height m \<le> height b")
      case True
      then have "l = b" using Cons.prems Some by simp
      then show ?thesis using m True by auto
    next
      case False
      then have "l = m" using Cons.prems Some by simp
      then show ?thesis using m False by auto
    qed
  qed
qed

lemma createBlockWithTypeORM_unfold:
  "createBlockWithTypeORM H newId now pts s =
     (if pts = [] then Inl (InternalServerErrorException ''Cannot create an empty block.'')
      else case insertBlock (newBlockOf H newId now (map snd pts) (getLatestBlock (blocks s))) s of
             Inl e \<Rightarrow> Inl e
           | Inr s' \<Rightarrow> Inr (newBlockOf H newId now (map snd pts) (getLatestBlock (blocks s)), s'))"
  by (simp add: createBlockWithTypeORM_def newBlockOf_def calculateBlockHash_def Let_def
           split: sum.splits)

lemma insertBlock_InrD:
  "insertBlock b s = Inr s' \<Longrightarrow>
   s' = s\<lparr>blocks := blocks s @ [b]\<rparr> \<and> height b \<notin> set (map height (blocks s))"
  by (simp add: insertBlock_def split: if_splits)

lemma createBlockWithTypeORM_InrD:
  assumes "createBlockWithTypeORM H newId now pts s = Inr (b, s')"
  shows "(case getLatestBlock (blocks s) of
            None \<Rightarrow> height b = 0 \<and> previousBlockHash b = None
          | Some l \<Rightarrow> height b = height l + 1 \<and> previousBlockHash b = Some (blockHash l))"
    and "s' = s\<lparr>blocks := blocks s @ [b]\<rparr>"
    and "height b \<notin> set (map height (blocks s))"
    and "pts \<noteq> []"
proof -
  let ?b = "newBlockOf H newId now (map snd pts) (getLatestBlock (blocks s))"
  show ne: "pts \<noteq> []" using assms by (auto simp: createBlockWithTypeORM_unfold)
  then have "b = ?b" and ins: "insertBlock ?b s = Inr s'"
    using assms by (auto simp: createBlockWithTypeORM_unfold split: sum.splits)
  then show "case getLatestBlock (blocks s) of
            None \<Rightarrow> height b = 0 \<and> previousBlockHash b = None
          | Some l \<Rightarrow> height b = height l + 1 \<and> previousBlockHash b = Some (blockHash l)"
    by (simp add: newBlockOf_def split: option.splits)
  show "s' = s\<lparr>blocks := blocks s @ [b]\<rparr>" "height b \<notin> set (map height (blocks s))"
    using insertBlock_InrD[OF ins] \<open>b = ?b\<close> by simp_all
qed

lemma getBlockByHeight_append:
  "getBlockByHeight (bs @ cs) h =
     (case getBlockByHeight bs h of None \<Rightarrow> getBlockByHeight cs h | Some x \<Rightarrow> Some x)"
  unfolding getBlockByHeight_def by (induction bs) simp_all

lemma getBlockByHeight_mem:
  assumes "distinct (map height bs)" and "l \<in> set bs"
  shows "getBlockByHeight bs (height l) = Some l"
proof (cases "getBlockByHeight bs (height l)")
  case None
  then show ?thesis using assms(2) by (auto simp: getBlockByHeight_def find_None_iff)
next
  case (Some m)
  then have "m \<in> set bs" "height m = height l"
    by (auto simp: getBlockByHeight_def find_Some_iff)
  then have "m = l" using assms by (meson distinct_map inj_onD)
  then show ?thesis using Some by simp
qed

lemma chain_preserved:
  assumes run: "createBlockWithTypeORM H newId now pts s = Inr (b, s')"
    and uh: "uniqueHeights (blocks s)" and cl: "chainLinked (blocks s)"
  shows "uniqueHeights (blocks s') \<and> chainLinked (blocks s')"
proof -
  note d = createBlockWithTypeORM_InrD[OF run]
  have bs': "blocks s' = blocks s @ [b]" using d(2) by simp
  have u': "uniqueHeights (blocks s')"
    using uh d(3) by (simp add: uniqueHeights_def bs')
  have old: "case getBlockByHeight (blocks s') (height B - 1) of
               None \<Rightarrow> False | Some P \<Rightarrow> previousBlockHash B = Some (blockHash P)"
    if "B \<in> set (blocks s)" "0 < height B" for B
  proof -
    from cl that obtain P where "getBlockByHeight (blocks s) (height B - 1) = Some P"
      "previousBlockHash B = Some (blockHash P)"
      by (auto simp: chainLinked_def list_all_iff split: option.splits)
    then show ?thesis by (simp add: bs' getBlockByHeight_append)
  qed
  have new: "case getBlockByHeight (blocks s') (height b - 1) of
               None \<Rightarrow> False | Some P \<Rightarrow> previousBlockHash b = Some (blockHash P)"
    if pos: "0 < height b"
  proof (cases "getLatestBlock (blocks s)")
    case None
    then show ?thesis using d(1) pos by simp
  next
    case (Some l)
    then have hb: "height b = height l + 1" "previousBlockHash b = Some (blockHash l)"
      using d(1) by simp_all
    have "l \<in> set (blocks s)" using getLatestBlock_Some[OF Some] by simp
    then have "getBlockByHeight (blocks s) (height l) = Some l"
      using uh by (simp add: uniqueHeights_def getBlockByHeight_mem)
    then show ?thesis using hb by (simp add: bs' getBlockByHeight_append)
  qed
  have "chainLinked (blocks s')"
    unfolding chainLinked_def list_all_iff
  proof
    fix B assume "B \<in> set (blocks s')"
    then consider "B \<in> set (blocks s)" | "B = b" by (auto simp: bs')
    then show "0 < height B \<longrightarrow>
               (case getBlockByHeight (blocks s') (height B - 1) of
                  None \<Rightarrow> False | Some P \<Rightarrow> previousBlockHash B = Some (blockHash P))"
      using old new by cases auto
  qed
  with u' show ?thesis by simp
qed

text \<open>The call succeeds on a non-empty batch unless the id or the digest is already taken.\<close>

lemma createBlockWithTypeORM_succeeds:
  assumes "pts \<noteq> []" and "newId \<notin> set (map block_id (blocks s))"
    and "\<And>d. H d \<notin> set (map blockHash (blocks s))"
  shows "\<exists>b s'. createBlockWithTypeORM H newId now pts s = Inr (b, s')"
proof -
  let ?b = "newBlockOf H newId now (map snd pts) (getLatestBlock (blocks s))"
  have "height ?b \<notin> set (map height (blocks s))"
  proof (cases "getLatestBlock (blocks s)")
    case None
    then show ?thesis by (simp add: getLatestBlock_None)
  next
    case (Some l)
    then show ?thesis using getLatestBlock_Some[OF Some] by (auto simp: newBlockOf_def)
  qed
  moreover have "block_id ?b = newId" "blockHash ?b \<notin> set (map blockHash (blocks s))"
    using assms(3) by (simp_all add: newBlockOf_def calculateBlockHash_def Let_def)
  ultimately have "insertBlock ?b s = Inr (s\<lparr>blocks := blocks s @ [?b]\<rparr>)"
    using assms(2) by (simp add: insertBlock_def)
  then show ?thesis using assms(1) by (simp add: createBlockWithTypeORM_unfold)
qed

lemma chain_sealBatches:
  "uniqueHeights (blocks s) \<Longrightarrow> chainLinked (blocks s) \<Longrightarrow>
   uniqueHeights (blocks (sealBatches H reqs s)) \<and> chainLinked (blocks (sealBatches H reqs s))"
proof (induction reqs arbitrary: s)
  case Nil
  then show ?case by simp
next
  case (Cons req reqs)
  obtain newId now pts where req: "req = (newId, now, pts)" by (cases req) auto
  show ?case
  proof (cases "createBlockWithTypeORM H newId now pts s")
    case (Inl e)
    then show ?thesis using Cons req by simp
  next
    case (Inr r)
    obtain b s' where r: "r = (b, s')" by (cases r) auto
    have "uniqueHeights (blocks s') \<and> chainLinked (blocks s')"
      using chain_preserved[OF Inr[unfolded r] Cons.prems] .
    then show ?thesis using Cons.IH[of s'] Inr r req by simp
  qed
qed

lemma storeWf_initial:
  "distinct (map acc_id (accounts s)) \<Longrightarrow> transactions s = [] \<Longrightarrow> storeWf s"
  by (simp add: storeWf_def)

lemma execute_success_accounts:
  assumes tx: "findTransaction (transactions s) txId = Some t0" and pend: "status t0 = PENDING"
    and sn: "findAccountById (accounts s) (fromAccountId t0) = Some sender"
    and rc: "findAccountById (accounts s) (toAccountId t0) = Some recipient"
    and ne: "fromAccountId t0 \<noteq> toAccountId t0"
    and run: "executeSingleTransaction txId s = (Some t, e, s')"
  shows "findAccountById (accounts s') (fromAccountId t0) =
           Some (sender\<lparr>balance := balance sender - amount t0,
                        locked := locked sender - amount t0\<rparr>)"
    and "findAccountById (accounts s') (toAccountId t0) =
           Some (recipient\<lparr>balance := balance recipient + amount t0\<rparr>)"
proof -
  let ?s1 = "saveTransaction (t0\<lparr>status := PROCESSING\<rparr>) s"
  let ?sender' = "sender\<lparr>balance := balance sender - amount t0,
                          locked := locked sender - amount t0\<rparr>"
  let ?recipient' = "recipient\<lparr>balance := balance recipient + amount t0\<rparr>"
  let ?s2 = "saveAccount ?sender' ?s1"
  have ok: "amount t0 \<le> locked sender" "amount t0 \<le> balance sender"
    using execute_Some_pending[OF tx pend run] sn rc by auto
  have s': "s' = saveAccount ?recipient' ?s2"
    using execute_success_store[OF tx pend sn rc ok] run by simp
  have ids: "acc_id sender = fromAccountId t0" "acc_id recipient = toAccountId t0"
    using sn rc by (simp_all add: findAccountById_SomeD)
  have f2: "findAccountById (accounts ?s2) (fromAccountId t0) = Some ?sender'"
    using findAccountById_saveAccount_same[of ?s1 ?sender' sender] sn ids by simp
  have r2: "findAccountById (accounts ?s2) (toAccountId t0) = Some recipient"
    using rc ne ids by (simp add: findAccountById_saveAccount_other)
  show "findAccountById (accounts s') (fromAccountId t0) = Some ?sender'"
    unfolding s' using f2 ne ids by (simp add: findAccountById_saveAccount_other)
  show "findAccountById (accounts s') (toAccountId t0) = Some ?recipient'"
    unfolding s' using findAccountById_saveAccount_same[of ?s2 ?recipient' recipient] r2 ids
    by simp
qed


subsection \<open>Exact number conversion\<close>

text \<open>With the identity for the conversion, the parametrised operations are the exact ones.\<close>

lemma revertLockOnAccountWith_exact: "revertLockOnAccountWith (\<lambda>x. x) = revertLockOnAccount"
  by (rule ext)+ (simp add: revertLockOnAccountWith_def revertLockOnAccount_def)

lemma submitTransferWith_exact: "submitTransferWith (\<lambda>x. x) = submitTransfer"
  by (rule ext)+ (simp add: submitTransferWith_def submitTransfer_def)

lemma executeSingleTransactionWith_exact:
  "executeSingleTransactionWith (\<lambda>x. x) = executeSingleTransaction"
  by (rule ext)+
     (simp add: executeSingleTransactionWith_def executeSingleTransaction_def
                revertLockOnAccountWith_exact Let_def split: option.splits)

text \<open>
  Conservation with exact conversion. In a well-formed store (account ids a primary key;
  stored transactions with a positive amount, two different endpoints and endpoints of one
  currency), which both operations keep well-formed, a run of submissions and executions
  under exact conversion keeps the sum of \<open>balance\<close> over the accounts of each currency; a
  successful execution takes the amount from the sender and gives it to the recipient; a
  submission changes no field of an account other than \<open>locked\<close> and \<open>nonce\<close>.
\<close>

lemma exact_conversion_conserves_balance:
  "(storeWf s \<longrightarrow> storeWf (run evs s) \<and> totalBalance c (run evs s) = totalBalance c s) \<and>
   (storeWf s \<and> findTransaction (transactions s) txId = Some t0 \<and> status t0 = PENDING \<and>
    findAccountById (accounts s) (fromAccountId t0) = Some sender \<and>
    findAccountById (accounts s) (toAccountId t0) = Some recipient \<and>
    executeSingleTransaction txId s = (Some t, e, s') \<longrightarrow>
      findAccountById (accounts s') (fromAccountId t0) =
        Some (sender\<lparr>balance := balance sender - amount t0,
                     locked := locked sender - amount t0\<rparr>) \<and>
      findAccountById (accounts s') (toAccountId t0) =
        Some (recipient\<lparr>balance := balance recipient + amount t0\<rparr>) \<and>
      totalBalance c s' = totalBalance c s) \<and>
   (distinct (map acc_id (accounts s)) \<longrightarrow>
      map balance (accounts (snd (submitTransfer newId rnd userId fromA toA amt cur descr s)))
        = map balance (accounts s) \<and>
      map (\<lambda>a. a\<lparr>locked := 0, nonce := 0\<rparr>)
          (accounts (snd (submitTransfer newId rnd userId fromA toA amt cur descr s)))
        = map (\<lambda>a. a\<lparr>locked := 0, nonce := 0\<rparr>) (accounts s))"
proof (intro conjI impI)
  assume "storeWf s"
  then show "totalBalance c (run evs s) = totalBalance c s" by (rule totalBalance_run)
next
  assume "storeWf s"
  then show "storeWf (run evs s)"
    by (induction evs arbitrary: s) (simp_all add: storeWf_step)
next
  assume h: "storeWf s \<and> findTransaction (transactions s) txId = Some t0 \<and> status t0 = PENDING \<and>
    findAccountById (accounts s) (fromAccountId t0) = Some sender \<and>
    findAccountById (accounts s) (toAccountId t0) = Some recipient \<and>
    executeSingleTransaction txId s = (Some t, e, s')"
  then have ne: "fromAccountId t0 \<noteq> toAccountId t0"
    using txWellFormed_found[of s txId t0] by (simp add: txWellFormed_def)
  show "findAccountById (accounts s') (fromAccountId t0) =
          Some (sender\<lparr>balance := balance sender - amount t0,
                       locked := locked sender - amount t0\<rparr>)"
    using execute_success_accounts(1)[of s txId t0 sender recipient t e s'] h ne by simp
  show "findAccountById (accounts s') (toAccountId t0) =
          Some (recipient\<lparr>balance := balance recipient + amount t0\<rparr>)"
    using execute_success_accounts(2)[of s txId t0 sender recipient t e s'] h ne by simp
  show "totalBalance c s' = totalBalance c s"
    using totalBalance_execute[of s c txId] h by simp
next
  assume "distinct (map acc_id (accounts s))"
  then show "map balance (accounts (snd (submitTransfer newId rnd userId fromA toA amt cur descr s)))
               = map balance (accounts s)"
    by (rule submitTransfer_balances)
next
  assume "distinct (map acc_id (accounts s))"
  then show "map (\<lambda>a. a\<lparr>locked := 0, nonce := 0\<rparr>)
                 (accounts (snd (submitTransfer newId rnd userId fromA toA amt cur descr s)))
               = map (\<lambda>a. a\<lparr>locked := 0, nonce := 0\<rparr>) (accounts s)"
    by (rule submitTransfer_only_locked_nonce)
qed

section \<open>The claims\<close>

subsection \<open>C1\<close>

text \<open>
  C1 (conservation), evaluated where the code does not conserve. The sender holds
  1073741824.5 with 1 locked, the recipient holds 0, and a PENDING transfer of 0.00000001 is
  executed. The new sender balance 1073741824.49999999 is computed exactly and then
  converted with \<^verbatim>\<open>toNumber\<close>; binary64 has no value that close to it, and the column keeps
  1073741824.5, the balance the sender had. The recipient is credited 0.00000001. The sum of
  \<open>balance\<close> over the NGN accounts goes from 1073741824.5 to 1073741824.50000001. Exact
  conversion would leave the sender 1073741824.49999999.
\<close>

theorem executed_transfer_changes_total:
  "storeWf (ledger 1073741824.5 1 0 tinyTx) \<and>
   allLockDiscipline (ledger 1073741824.5 1 0 tinyTx) \<and>
   findTransaction (transactions (ledger 1073741824.5 1 0 tinyTx)) ''tx1'' = Some tinyTx \<and>
   status tinyTx = PENDING \<and> amount tinyTx = 0.00000001 \<and>
   executeSingleTransactionWith storedNumber ''tx1'' (ledger 1073741824.5 1 0 tinyTx) =
     (Some (tinyTx\<lparr>status := PROCESSING\<rparr>), Committed,
      ledger 1073741824.5 0.99999999 0.00000001 (tinyTx\<lparr>status := PROCESSING\<rparr>)) \<and>
   totalBalance ''NGN'' (ledger 1073741824.5 1 0 tinyTx) = 1073741824.5 \<and>
   totalBalance ''NGN'' (ledger 1073741824.5 0.99999999 0.00000001 (tinyTx\<lparr>status := PROCESSING\<rparr>))
     = 1073741824.50000001 \<and>
   executeSingleTransaction ''tx1'' (ledger 1073741824.5 1 0 tinyTx) =
     (Some (tinyTx\<lparr>status := PROCESSING\<rparr>), Committed,
      ledger 1073741824.49999999 0.99999999 0.00000001 (tinyTx\<lparr>status := PROCESSING\<rparr>))"
proof -
  let ?s = "ledger 1073741824.5 1 0 tinyTx"
  let ?done = "tinyTx\<lparr>status := PROCESSING\<rparr>"
  have wf: "storeWf ?s" by code_simp
  have inv: "allLockDiscipline ?s" by code_simp
  have tx: "findTransaction (transactions ?s) ''tx1'' = Some tinyTx" by code_simp
  have st: "status tinyTx = PENDING" by code_simp
  have am: "amount tinyTx = 0.00000001" by code_simp
  have code: "executeSingleTransactionWith storedNumber ''tx1'' ?s =
                (Some ?done, Committed, ledger 1073741824.5 0.99999999 0.00000001 ?done)"
    by code_simp
  have before: "totalBalance ''NGN'' ?s = 1073741824.5" by code_simp
  have after: "totalBalance ''NGN'' (ledger 1073741824.5 0.99999999 0.00000001 ?done)
                 = 1073741824.50000001" by code_simp
  have exact: "executeSingleTransaction ''tx1'' ?s =
                 (Some ?done, Committed, ledger 1073741824.49999999 0.99999999 0.00000001 ?done)"
    by code_simp
  show ?thesis using wf inv tx st am code before after exact by blast
qed

subsection \<open>C2\<close>



subsection \<open>C3\<close>

text \<open>
  C3, amended. For a \<open>submitTransfer\<close> call with a positive amount, two different addresses
  and a sender account that the caller owns and whose currency is the one of the transfer:
  if no account has the recipient address, the call fails and leaves the store as it was;
  the failure is \<^verbatim>\<open>NotFoundException\<close> when the sender's available balance
  (\<open>balance - locked\<close>) covers the amount, and the \<^verbatim>\<open>BadRequestException\<close> for
  insufficient funds when it does not, because the method checks the available funds
  before it loads the recipient.
\<close>

theorem submitTransfer_missing_recipient:
  assumes "0 < amt" and "fromA \<noteq> toA"
    and "findOwnedAccount s fromA userId = Some sender"
    and "acc_currency sender = toUpperCase cur"
    and "findAccountByAddress (accounts s) toA = None"
  shows "submitTransfer newId rnd userId fromA toA amt cur descr s =
           ((if balance sender - locked sender < amt
             then Inl (BadRequestException ''Insufficient available funds.'')
             else Inl (NotFoundException (''Recipient account '' @ toA @ '' not found.''))), s)"
  using assms by (simp add: submitTransfer_def Let_def)

theorem submitTransfer_missing_recipient_witness:
  "(0::decimal) < 50 \<and> (0::decimal) < 5000 \<and> ''acc_A'' \<noteq> ''acc_C'' \<and>
   findOwnedAccount exampleStore ''acc_A'' ''u1'' = Some (accountA 1000 0 0) \<and>
   acc_currency (accountA 1000 0 0) = toUpperCase ''NGN'' \<and>
   findAccountByAddress (accounts exampleStore) ''acc_C'' = None \<and>
   submitTransfer ''tx1'' ''00ff'' ''u1'' ''acc_A'' ''acc_C'' 50 ''NGN'' None exampleStore =
     (Inl (NotFoundException ''Recipient account acc_C not found.''), exampleStore) \<and>
   submitTransfer ''tx1'' ''00ff'' ''u1'' ''acc_A'' ''acc_C'' 5000 ''NGN'' None exampleStore =
     (Inl (BadRequestException ''Insufficient available funds.''), exampleStore)"
proof -
  have ne: "''acc_A'' \<noteq> ''acc_C''" by simp
  have sn: "findOwnedAccount exampleStore ''acc_A'' ''u1'' = Some (accountA 1000 0 0)"
    by code_simp
  have cur: "acc_currency (accountA 1000 0 0) = toUpperCase ''NGN''" by code_simp
  have rc: "findAccountByAddress (accounts exampleStore) ''acc_C'' = None" by code_simp
  have av: "balance (accountA 1000 0 0) - locked (accountA 1000 0 0) = 1000"
    by (simp add: accountA_def)
  have small: "submitTransfer ''tx1'' ''00ff'' ''u1'' ''acc_A'' ''acc_C'' 50 ''NGN'' None exampleStore =
     (Inl (NotFoundException ''Recipient account acc_C not found.''), exampleStore)"
    using submitTransfer_missing_recipient[OF _ ne sn cur rc, of 50 "''tx1''" "''00ff''" None] av
    by simp
  have large: "submitTransfer ''tx1'' ''00ff'' ''u1'' ''acc_A'' ''acc_C'' 5000 ''NGN'' None exampleStore =
     (Inl (BadRequestException ''Insufficient available funds.''), exampleStore)"
    using submitTransfer_missing_recipient[OF _ ne sn cur rc, of 5000 "''tx1''" "''00ff''" None] av
    by simp
  show ?thesis using ne sn cur rc small large by simp
qed

text \<open>
  C3 as stated fails where the sender cannot cover the amount: the recipient address
  \<^verbatim>\<open>acc_C\<close> does not exist, the other preconditions hold, and the call fails with the
  \<^verbatim>\<open>BadRequestException\<close> for insufficient funds, not with \<^verbatim>\<open>NotFoundException\<close>.
\<close>

theorem submitTransfer_missing_recipient_counterexample:
  "(0::decimal) < 5000 \<and> ''acc_A'' \<noteq> ''acc_C'' \<and>
   findOwnedAccount exampleStore ''acc_A'' ''u1'' = Some (accountA 1000 0 0) \<and>
   acc_currency (accountA 1000 0 0) = toUpperCase ''NGN'' \<and>
   findAccountByAddress (accounts exampleStore) ''acc_C'' = None \<and>
   fst (submitTransfer ''tx1'' ''00ff'' ''u1'' ''acc_A'' ''acc_C'' 5000 ''NGN'' None exampleStore) =
     Inl (BadRequestException ''Insufficient available funds.'') \<and>
   \<not> isNotFound (fst (submitTransfer ''tx1'' ''00ff'' ''u1'' ''acc_A'' ''acc_C'' 5000 ''NGN'' None
                        exampleStore))"
  by code_simp

subsection \<open>C4\<close>

text \<open>
  C4, amended. For every input list that does not have exactly one element,
  \<open>calculateMerkleRoot\<close> equals the Merkle computation of the specification (sort the hashes,
  then replace each level by the pairwise digests, doubling the last element of a level of
  odd size, until one node is left; the digest of the empty string for the empty list). For
  a list of one element the function returns the digest of that element.
\<close>

theorem calculateMerkleRoot_refines_spec:
  "(length hs \<noteq> 1 \<longrightarrow> calculateMerkleRoot H hs = spec_merkleRoot H hs) \<and>
   (length hs = 1 \<longrightarrow> calculateMerkleRoot H hs = H (hs ! 0))"
proof (intro conjI impI)
  assume ne: "length hs \<noteq> 1"
  show "calculateMerkleRoot H hs = spec_merkleRoot H hs"
  proof (cases "hs = []")
    case True
    then show ?thesis
      by (simp add: calculateMerkleRoot_def spec_merkleRoot_def spec_reduce.simps)
  next
    case False
    then have "sort hs \<noteq> []" by (metis length_sort length_0_conv)
    then have "length (spec_reduce H (sort hs)) = 1" by (rule spec_reduce_length)
    then obtain r where r: "spec_reduce H (sort hs) = [r]"
      by (cases "spec_reduce H (sort hs)") auto
    show ?thesis
      using False ne by (simp add: calculateMerkleRoot_def spec_merkleRoot_def whileLevels_eq r)
  qed
next
  assume "length hs = 1"
  then show "calculateMerkleRoot H hs = H (hs ! 0)"
    by (simp add: calculateMerkleRoot_def)
qed

theorem calculateMerkleRoot_refines_spec_witness:
  "length [''txn_b'', ''txn_a'', ''txn_c''] \<noteq> 1 \<and>
   calculateMerkleRoot tagDigest [''txn_b'', ''txn_a'', ''txn_c''] =
     spec_merkleRoot tagDigest [''txn_b'', ''txn_a'', ''txn_c''] \<and>
   spec_merkleRoot tagDigest [''txn_b'', ''txn_a'', ''txn_c''] = ''##txn_atxn_b#txn_ctxn_c'' \<and>
   length [''txn_a''] = 1 \<and>
   calculateMerkleRoot tagDigest [''txn_a''] = tagDigest ([''txn_a''] ! 0)"
proof -
  have l3: "length [''txn_b'', ''txn_a'', ''txn_c''] \<noteq> 1" by simp
  have l1: "length [''txn_a''] = 1" by simp
  have v: "spec_merkleRoot tagDigest [''txn_b'', ''txn_a'', ''txn_c''] = ''##txn_atxn_b#txn_ctxn_c''"
    by code_simp
  show ?thesis
    using calculateMerkleRoot_refines_spec[of "[''txn_b'', ''txn_a'', ''txn_c'']" tagDigest]
          calculateMerkleRoot_refines_spec[of "[''txn_a'']" tagDigest] l3 l1 v
    by blast
qed

text \<open>
  C4 as stated fails on a list of one element: the specified computation leaves a single
  node as it is, and the function returns its digest (which is not the digest of the doubled
  element either).
\<close>

theorem calculateMerkleRoot_single_counterexample:
  "calculateMerkleRoot tagDigest [''txn_a''] = ''#txn_a'' \<and>
   spec_merkleRoot tagDigest [''txn_a''] = ''txn_a'' \<and>
   calculateMerkleRoot tagDigest [''txn_a''] \<noteq> spec_merkleRoot tagDigest [''txn_a''] \<and>
   calculateMerkleRoot tagDigest [''txn_a''] \<noteq> tagDigest (''txn_a'' @ ''txn_a'')"
  by code_simp

subsection \<open>C5\<close>

text \<open>
  C5 (the FAILED branches), evaluated on a PENDING transfer of 150.75 whose sender has 100
  locked. The call saves the transaction as FAILED, writes no account and returns
  \<^verbatim>\<open>null\<close>, but it returns without \<^verbatim>\<open>commitTransaction\<close>: the write exists on the call's
  connection only, and in the committed store the transaction is still PENDING. The exits
  for a missing transaction, for a transaction that is not PENDING and for a success commit
  before they return.
\<close>

theorem failed_branch_not_committed:
  "allLockDiscipline (ledger 1000 100 0 exampleTx) \<and>
   findTransaction (transactions (ledger 1000 100 0 exampleTx)) ''tx1'' = Some exampleTx \<and>
   status exampleTx = PENDING \<and>
   locked (accountA 1000 100 1) < amount exampleTx \<and>
   executeSingleTransactionWith storedNumber ''tx1'' (ledger 1000 100 0 exampleTx) =
     (None, LeftOpen,
      ledger 1000 100 0
        (exampleTx\<lparr>status := FAILED,
                   description := Some ''Transfer to acc_B | ProcessorFailure: Inconsistent locked amount for sender.''\<rparr>)) \<and>
   committedStore (ledger 1000 100 0 exampleTx)
       (executeSingleTransactionWith storedNumber ''tx1'' (ledger 1000 100 0 exampleTx))
     = ledger 1000 100 0 exampleTx \<and>
   map_option status
     (findTransaction
        (transactions
           (committedStore (ledger 1000 100 0 exampleTx)
              (executeSingleTransactionWith storedNumber ''tx1'' (ledger 1000 100 0 exampleTx))))
        ''tx1'') = Some PENDING"
proof -
  let ?s = "ledger 1000 100 0 exampleTx"
  let ?failed = "exampleTx\<lparr>status := FAILED,
                   description := Some ''Transfer to acc_B | ProcessorFailure: Inconsistent locked amount for sender.''\<rparr>"
  have inv: "allLockDiscipline ?s" by code_simp
  have tx: "findTransaction (transactions ?s) ''tx1'' = Some exampleTx" by code_simp
  have st: "status exampleTx = PENDING" by code_simp
  have low: "locked (accountA 1000 100 1) < amount exampleTx" by code_simp
  have code: "executeSingleTransactionWith storedNumber ''tx1'' ?s =
                (None, LeftOpen, ledger 1000 100 0 ?failed)"
    by code_simp
  have com: "committedStore ?s (executeSingleTransactionWith storedNumber ''tx1'' ?s) = ?s"
    unfolding code by (simp add: committedStore_def)
  have seen: "map_option status
     (findTransaction (transactions
        (committedStore ?s (executeSingleTransactionWith storedNumber ''tx1'' ?s))) ''tx1'')
       = Some PENDING"
    unfolding com using tx st by simp
  show ?thesis using inv tx st low code com seen by blast
qed

subsection \<open>C6\<close>

text \<open>
  C6 (post-state of a successful submission), evaluated where the lock is not raised. The
  sender holds 9999999999 with 1073741824 locked and submits 0.00000001. The call succeeds:
  the nonce goes from 0 to 1 and the PENDING row with \<open>accountNonce\<close> 0 is inserted. The new
  lock 1073741824.00000001 is computed exactly and then converted with \<^verbatim>\<open>toNumber\<close>; the
  column keeps 1073741824, so \<open>locked\<close> is what it was. Exact conversion would store
  1073741824.00000001.
\<close>

theorem submitted_lock_not_raised:
  "allLockDiscipline (exampleStore\<lparr>accounts := [accountA 9999999999 1073741824 0, accountB 0]\<rparr>) \<and>
   submitTransferWith storedNumber ''tx1'' ''00ff'' ''u1'' ''acc_A'' ''acc_B'' 0.00000001 ''NGN'' None
       (exampleStore\<lparr>accounts := [accountA 9999999999 1073741824 0, accountB 0]\<rparr>) =
     (Inr (''tx1'', ''txn_00ff'', PENDING),
      exampleStore\<lparr>accounts := [accountA 9999999999 1073741824 1, accountB 0],
                     transactions := [tinyTx], mempool := [''tx1'']\<rparr>) \<and>
   locked (accountA 9999999999 1073741824 1) = locked (accountA 9999999999 1073741824 0) \<and>
   submitTransfer ''tx1'' ''00ff'' ''u1'' ''acc_A'' ''acc_B'' 0.00000001 ''NGN'' None
       (exampleStore\<lparr>accounts := [accountA 9999999999 1073741824 0, accountB 0]\<rparr>) =
     (Inr (''tx1'', ''txn_00ff'', PENDING),
      exampleStore\<lparr>accounts := [accountA 9999999999 1073741824.00000001 1, accountB 0],
                     transactions := [tinyTx], mempool := [''tx1'']\<rparr>)"
proof -
  let ?s = "exampleStore\<lparr>accounts := [accountA 9999999999 1073741824 0, accountB 0]\<rparr>"
  have inv: "allLockDiscipline ?s" by code_simp
  have code: "submitTransferWith storedNumber ''tx1'' ''00ff'' ''u1'' ''acc_A'' ''acc_B'' 0.00000001
                ''NGN'' None ?s =
     (Inr (''tx1'', ''txn_00ff'', PENDING),
      exampleStore\<lparr>accounts := [accountA 9999999999 1073741824 1, accountB 0],
                     transactions := [tinyTx], mempool := [''tx1'']\<rparr>)"
    by code_simp
  have same: "locked (accountA 9999999999 1073741824 1) = locked (accountA 9999999999 1073741824 0)"
    by code_simp
  have exact: "submitTransfer ''tx1'' ''00ff'' ''u1'' ''acc_A'' ''acc_B'' 0.00000001 ''NGN'' None ?s =
     (Inr (''tx1'', ''txn_00ff'', PENDING),
      exampleStore\<lparr>accounts := [accountA 9999999999 1073741824.00000001 1, accountB 0],
                     transactions := [tinyTx], mempool := [''tx1'']\<rparr>)"
    by code_simp
  show ?thesis using inv code same exact by blast
qed

subsection \<open>C7\<close>

text \<open>
  C7 (idempotent executor). On a transaction whose stored status is not PENDING,
  \<open>executeSingleTransaction\<close> commits without a write and returns the row if its status is
  PROCESSING, and \<^verbatim>\<open>null\<close> otherwise. Hence once a call has returned a row, every later
  call on the same id returns that row again and changes nothing.
\<close>

theorem executor_idempotent:
  "(findTransaction (transactions s) txId = Some t \<and> status t \<noteq> PENDING \<longrightarrow>
      executeSingleTransaction txId s =
        ((if status t = PROCESSING then Some t else None), Committed, s)) \<and>
   (executeSingleTransaction txId s = (Some t', e, s') \<longrightarrow>
      status t' = PROCESSING \<and>
      executeSingleTransaction txId s' = (Some t', Committed, s') \<and>
      run (replicate n (Execute txId)) s' = s')"
proof (intro conjI impI)
  assume "findTransaction (transactions s) txId = Some t \<and> status t \<noteq> PENDING"
  then show "executeSingleTransaction txId s =
               ((if status t = PROCESSING then Some t else None), Committed, s)"
    by (simp add: execute_not_pending)
next
  assume ex: "executeSingleTransaction txId s = (Some t', e, s')"
  then show "status t' = PROCESSING" using execute_Some_cases by blast
  from ex show again: "executeSingleTransaction txId s' = (Some t', Committed, s')"
    by (rule execute_idempotent)
  then have "step (Execute txId) s' = s'" by simp
  then show "run (replicate n (Execute txId)) s' = s'" by (rule run_replicate_fixed)
qed

theorem executor_idempotent_witness:
  "findTransaction (transactions (ledger 849.25 0 150.75 (exampleTx\<lparr>status := CONFIRMED\<rparr>))) ''tx1''
     = Some (exampleTx\<lparr>status := CONFIRMED\<rparr>) \<and>
   status (exampleTx\<lparr>status := CONFIRMED\<rparr>) \<noteq> PENDING \<and>
   executeSingleTransaction ''tx1'' (ledger 849.25 0 150.75 (exampleTx\<lparr>status := CONFIRMED\<rparr>)) =
     (None, Committed, ledger 849.25 0 150.75 (exampleTx\<lparr>status := CONFIRMED\<rparr>)) \<and>
   executeSingleTransaction ''tx1'' (ledger 1000 150.75 0 exampleTx) =
     (Some (exampleTx\<lparr>status := PROCESSING\<rparr>), Committed,
      ledger 849.25 0 150.75 (exampleTx\<lparr>status := PROCESSING\<rparr>)) \<and>
   executeSingleTransaction ''tx1'' (ledger 849.25 0 150.75 (exampleTx\<lparr>status := PROCESSING\<rparr>)) =
     (Some (exampleTx\<lparr>status := PROCESSING\<rparr>), Committed,
      ledger 849.25 0 150.75 (exampleTx\<lparr>status := PROCESSING\<rparr>)) \<and>
   run (replicate 3 (Execute ''tx1'')) (ledger 849.25 0 150.75 (exampleTx\<lparr>status := PROCESSING\<rparr>))
     = ledger 849.25 0 150.75 (exampleTx\<lparr>status := PROCESSING\<rparr>)"
proof -
  let ?confirmed = "ledger 849.25 0 150.75 (exampleTx\<lparr>status := CONFIRMED\<rparr>)"
  let ?settled = "ledger 849.25 0 150.75 (exampleTx\<lparr>status := PROCESSING\<rparr>)"
  have tx: "findTransaction (transactions ?confirmed) ''tx1'' = Some (exampleTx\<lparr>status := CONFIRMED\<rparr>)"
    by code_simp
  have st: "status (exampleTx\<lparr>status := CONFIRMED\<rparr>) \<noteq> PENDING" by simp
  have ex: "executeSingleTransaction ''tx1'' (ledger 1000 150.75 0 exampleTx) =
              (Some (exampleTx\<lparr>status := PROCESSING\<rparr>), Committed, ?settled)"
    by code_simp
  have c1: "executeSingleTransaction ''tx1'' ?confirmed = (None, Committed, ?confirmed)"
    using executor_idempotent[of ?confirmed "''tx1''" "exampleTx\<lparr>status := CONFIRMED\<rparr>"] tx st
    by simp
  note again = executor_idempotent[of "ledger 1000 150.75 0 exampleTx" "''tx1''" exampleTx
                 "exampleTx\<lparr>status := PROCESSING\<rparr>" Committed ?settled 3]
  show ?thesis
    using tx st c1 ex again by blast
qed

subsection \<open>C8\<close>

text \<open>
  C8 (chain linkage). A block that \<open>createBlockWithTypeORM\<close> creates is appended to the
  block table; if the table was empty it has height 0 and no previous hash, otherwise its
  height is one more than the greatest height in the table and its previous hash is the hash
  of the block of that height. Consequently chain integrity (unique heights, and every
  block above height 0 naming the hash of the block one below) is kept by every creation,
  and holds for every chain built from an empty table.
\<close>

theorem chain_linkage:
  "(createBlockWithTypeORM H newId now pts s = Inr (b, s') \<longrightarrow>
      blocks s' = blocks s @ [b] \<and>
      (blocks s = [] \<longrightarrow> height b = 0 \<and> previousBlockHash b = None) \<and>
      (blocks s \<noteq> [] \<longrightarrow>
         (\<exists>l \<in> set (blocks s). (\<forall>x \<in> set (blocks s). height x \<le> height l) \<and>
            getLatestBlock (blocks s) = Some l \<and>
            height b = height l + 1 \<and> previousBlockHash b = Some (blockHash l))) \<and>
      (uniqueHeights (blocks s) \<and> chainLinked (blocks s) \<longrightarrow>
         uniqueHeights (blocks s') \<and> chainLinked (blocks s'))) \<and>
   (blocks s = [] \<longrightarrow>
      uniqueHeights (blocks (sealBatches H reqs s)) \<and> chainLinked (blocks (sealBatches H reqs s)))"
proof (intro conjI impI)
  assume run: "createBlockWithTypeORM H newId now pts s = Inr (b, s')"
  note d = createBlockWithTypeORM_InrD[OF run]
  show "blocks s' = blocks s @ [b]" using d(2) by simp
  show "height b = 0" "previousBlockHash b = None" if "blocks s = []"
    using d(1) that by simp_all
  show "\<exists>l \<in> set (blocks s). (\<forall>x \<in> set (blocks s). height x \<le> height l) \<and>
            getLatestBlock (blocks s) = Some l \<and>
            height b = height l + 1 \<and> previousBlockHash b = Some (blockHash l)"
    if "blocks s \<noteq> []"
  proof -
    from that obtain l where l: "getLatestBlock (blocks s) = Some l"
      using getLatestBlock_None[of "blocks s"] by (cases "getLatestBlock (blocks s)") auto
    then show ?thesis using getLatestBlock_Some[OF l] d(1) by auto
  qed
  show "uniqueHeights (blocks s')" "chainLinked (blocks s')"
    if "uniqueHeights (blocks s) \<and> chainLinked (blocks s)"
    using chain_preserved[OF run] that by simp_all
next
  assume e: "blocks s = []"
  then have "uniqueHeights (blocks s)" "chainLinked (blocks s)"
    by (simp_all add: uniqueHeights_def chainLinked_def)
  then show "uniqueHeights (blocks (sealBatches H reqs s))"
    and "chainLinked (blocks (sealBatches H reqs s))"
    using chain_sealBatches by blast+
qed

theorem chain_linkage_witness:
  "createBlockWithTypeORM tagDigest ''b0'' ''2024-01-01T00:00:00.000Z'' [(''tx1'', ''txn_00ff'')]
       exampleStore
     = Inr (exampleBlock0, exampleStore\<lparr>blocks := [exampleBlock0]\<rparr>) \<and>
   blocks exampleStore = [] \<and>
   height exampleBlock0 = 0 \<and> previousBlockHash exampleBlock0 = None \<and>
   createBlockWithTypeORM tagDigest ''b1'' ''2024-01-01T00:00:15.000Z''
       [(''tx2'', ''txn_b''), (''tx3'', ''txn_a'')] (exampleStore\<lparr>blocks := [exampleBlock0]\<rparr>)
     = Inr (exampleBlock1, exampleStore\<lparr>blocks := [exampleBlock0, exampleBlock1]\<rparr>) \<and>
   blocks (exampleStore\<lparr>blocks := [exampleBlock0]\<rparr>) \<noteq> [] \<and>
   uniqueHeights (blocks (exampleStore\<lparr>blocks := [exampleBlock0]\<rparr>)) \<and>
   chainLinked (blocks (exampleStore\<lparr>blocks := [exampleBlock0]\<rparr>)) \<and>
   height exampleBlock1 = height exampleBlock0 + 1 \<and>
   previousBlockHash exampleBlock1 = Some (blockHash exampleBlock0) \<and>
   uniqueHeights (blocks (exampleStore\<lparr>blocks := [exampleBlock0, exampleBlock1]\<rparr>)) \<and>
   chainLinked (blocks (exampleStore\<lparr>blocks := [exampleBlock0, exampleBlock1]\<rparr>)) \<and>
   sealBatches tagDigest
       [(''b0'', ''2024-01-01T00:00:00.000Z'', [(''tx1'', ''txn_00ff'')]),
        (''b1'', ''2024-01-01T00:00:15.000Z'', [(''tx2'', ''txn_b''), (''tx3'', ''txn_a'')])]
       exampleStore
     = exampleStore\<lparr>blocks := [exampleBlock0, exampleBlock1]\<rparr>"
proof -
  let ?s1 = "exampleStore\<lparr>blocks := [exampleBlock0]\<rparr>"
  let ?s2 = "exampleStore\<lparr>blocks := [exampleBlock0, exampleBlock1]\<rparr>"
  have first: "createBlockWithTypeORM tagDigest ''b0'' ''2024-01-01T00:00:00.000Z''
                 [(''tx1'', ''txn_00ff'')] exampleStore = Inr (exampleBlock0, ?s1)"
    by code_simp
  have second: "createBlockWithTypeORM tagDigest ''b1'' ''2024-01-01T00:00:15.000Z''
                  [(''tx2'', ''txn_b''), (''tx3'', ''txn_a'')] ?s1 = Inr (exampleBlock1, ?s2)"
    by code_simp
  have empty: "blocks exampleStore = []" by code_simp
  have nonempty: "blocks ?s1 \<noteq> []" by simp
  have u1: "uniqueHeights (blocks ?s1)" and l1: "chainLinked (blocks ?s1)" by code_simp+
  have l0: "getLatestBlock (blocks ?s1) = Some exampleBlock0" by simp
  have seal: "sealBatches tagDigest
       [(''b0'', ''2024-01-01T00:00:00.000Z'', [(''tx1'', ''txn_00ff'')]),
        (''b1'', ''2024-01-01T00:00:15.000Z'', [(''tx2'', ''txn_b''), (''tx3'', ''txn_a'')])]
       exampleStore = ?s2"
    using first second by simp
  note g = chain_linkage[of tagDigest "''b0''" "''2024-01-01T00:00:00.000Z''"
             "[(''tx1'', ''txn_00ff'')]" exampleStore exampleBlock0 ?s1 "[]"]
  note n = chain_linkage[of tagDigest "''b1''" "''2024-01-01T00:00:15.000Z''"
             "[(''tx2'', ''txn_b''), (''tx3'', ''txn_a'')]" ?s1 exampleBlock1 ?s2 "[]"]
  have c0: "height exampleBlock0 = 0 \<and> previousBlockHash exampleBlock0 = None"
    using g first empty by blast
  have c1: "height exampleBlock1 = height exampleBlock0 + 1 \<and>
            previousBlockHash exampleBlock1 = Some (blockHash exampleBlock0)"
    using n second nonempty l0 by auto
  have c2: "uniqueHeights (blocks ?s2) \<and> chainLinked (blocks ?s2)"
    using n second u1 l1 by blast
  show ?thesis
    using first empty c0 second nonempty u1 l1 c1 c2 seal by blast
qed

subsection \<open>C9\<close>

text \<open>
  C9 (sort-invariant commitment). For a permutation of the list of system hashes, with
  height, timestamp and previous hash fixed, \<open>calculateBlockHash\<close> and
  \<open>calculateMerkleRoot\<close> return the same results; so \<open>createBlockWithTypeORM\<close>, given the
  same batch in another order, builds the same block.
\<close>

theorem commitment_ignores_order:
  assumes "mset hs' = mset hs"
  shows "calculateBlockHash H heightStr ts prev hs' = calculateBlockHash H heightStr ts prev hs \<and>
         calculateMerkleRoot H hs' = calculateMerkleRoot H hs \<and>
         (mset (map snd pts') = mset (map snd pts) \<longrightarrow>
            createBlockWithTypeORM H newId now pts' s = createBlockWithTypeORM H newId now pts s)"
  using assms calculateBlockHash_permuted[OF assms] calculateMerkleRoot_permuted[OF assms]
        createBlockWithTypeORM_permuted
  by blast

theorem commitment_ignores_order_witness:
  "mset [''txn_b'', ''txn_a''] = mset [''txn_a'', ''txn_b''] \<and>
   mset (map snd [(''tx2'', ''txn_b''), (''tx3'', ''txn_a'')])
     = mset (map snd [(''tx3'', ''txn_a''), (''tx2'', ''txn_b'')]) \<and>
   calculateBlockHash tagDigest ''0'' ''2024-01-01T00:00:00.000Z'' None [''txn_b'', ''txn_a'']
     = calculateBlockHash tagDigest ''0'' ''2024-01-01T00:00:00.000Z'' None [''txn_a'', ''txn_b''] \<and>
   calculateMerkleRoot tagDigest [''txn_b'', ''txn_a'']
     = calculateMerkleRoot tagDigest [''txn_a'', ''txn_b''] \<and>
   createBlockWithTypeORM tagDigest ''b0'' ''2024-01-01T00:00:00.000Z''
       [(''tx2'', ''txn_b''), (''tx3'', ''txn_a'')] exampleStore
     = createBlockWithTypeORM tagDigest ''b0'' ''2024-01-01T00:00:00.000Z''
       [(''tx3'', ''txn_a''), (''tx2'', ''txn_b'')] exampleStore"
proof -
  have p: "mset [''txn_b'', ''txn_a''] = mset [''txn_a'', ''txn_b'']" by simp
  have q: "mset (map snd [(''tx2'', ''txn_b''), (''tx3'', ''txn_a'')])
             = mset (map snd [(''tx3'', ''txn_a''), (''tx2'', ''txn_b'')])" by simp
  show ?thesis
    using commitment_ignores_order[OF p, of tagDigest "''0''" "''2024-01-01T00:00:00.000Z''" None
            "[(''tx2'', ''txn_b''), (''tx3'', ''txn_a'')]"
            "[(''tx3'', ''txn_a''), (''tx2'', ''txn_b'')]" "''b0''" "''2024-01-01T00:00:00.000Z''"
            exampleStore] p q
    by blast
qed

end
